theory Spec2Isabelle
  imports Main "HOL-Library.AList"
begin

section \<open>AutoGUILD: data model\<close>

text \<open>
  Embedding of \<^verbatim>\<open>src/daf/guild/autoguild.py\<close>.  Exceptions are values of
  \<open>error\<close>; a coroutine is the function from the state before it runs to its result
  and the state after it.
\<close>

datatype error =
    TypeError | AttributeError | KeyError | ValueError | ReError
  | HTTPException | StopAsyncIteration | RuntimeError | OtherError

text \<open>
  \<^verbatim>\<open>re.search(pattern, name) is not None\<close>: the regular-expression engine is a
  library, so it is a parameter.  It returns whether a match exists, or raises
  (\<^verbatim>\<open>re.error\<close> on a malformed pattern).
\<close>

type_synonym re_search = "string \<Rightarrow> string \<Rightarrow> error + bool"

text \<open>\<^verbatim>\<open>Union[timedelta, datetime]\<close>, both counted in seconds.\<close>

datatype timespec = Timedelta int | Datetime int

datatype EventID =
    server_update | server_removed | auto_guild_start_join
  | discord_guild_join | discord_guild_remove
  | discord_member_join | discord_invite_delete

text \<open>The bound methods of an AutoGUILD that are registered as listeners.\<close>

datatype callback =
    on_member_join | on_invite_delete | join_guilds
  | on_guild_join | on_guild_remove | on_update

text \<open>
  The task returned by \<^verbatim>\<open>async_util.call_at(event_ctrl.emit, when, event, self)\<close>:
  when it fires, which event it emits, and whether it has been cancelled.
\<close>

record timer =
  fire_when :: timespec
  fire_event :: EventID
  cancelled :: bool

text \<open>
  A message object: its identity (\<open>ref\<close>), the tracked id that \<^verbatim>\<open>==\<close> compares
  and \<^verbatim>\<open>deepcopy\<close> keeps, and the flag set by \<^verbatim>\<open>_update_tracked_id\<close>.
\<close>

record message =
  ref :: nat
  daf_id :: nat
  remote_allowed :: bool

text \<open>\<^verbatim>\<open>discord.Invite\<close> and \<^verbatim>\<open>discord.Guild\<close> as the code reads them.\<close>

record invite =
  invite_id :: string
  uses :: nat

record dguild =
  dg_id :: nat
  dg_name :: "string option"
  manage_guild :: bool
  dg_invites :: "error + invite list"

text \<open>
  A generated \<^verbatim>\<open>GUILD\<close> manager, with the arguments it was constructed from and the
  number of times its \<^verbatim>\<open>_close\<close> has run.
\<close>

record GUILD =
  apiobject :: dguild
  g_messages :: "message list"
  g_logging :: bool
  g_removal_buffer_length :: int
  g_closed :: nat

text \<open>
  \<^verbatim>\<open>web.QueryResult\<close> and \<^verbatim>\<open>web.GuildDISCOVERY\<close>.  Of the discovery object
  the code reads \<^verbatim>\<open>limit\<close>, what \<^verbatim>\<open>initialize(self)\<close> returns (\<open>init_result\<close>) and the
  generator of \<^verbatim>\<open>_query_request()\<close> (\<open>feed\<close>); \<open>d_closed\<close> counts its \<^verbatim>\<open>_close()\<close>.
\<close>

record query_result =
  qr_id :: nat
  qr_name :: string
  qr_url :: string

text \<open>
  The asynchronous generator of \<^verbatim>\<open>_query_request()\<close> is the list of what its
  \<^verbatim>\<open>__anext__\<close> calls give in turn: a result, or an exception raised by the query.
  After the last item it raises \<^verbatim>\<open>StopAsyncIteration\<close>.
\<close>

type_synonym query_iter = "(error + query_result) list"

record discovery =
  limit :: int
  feed :: query_iter
  init_result :: "error option"
  d_closed :: nat

text \<open>
  The slots of \<^verbatim>\<open>AutoGUILD\<close>, without the leading underscore.  \<^verbatim>\<open>_remove_after\<close>
  and \<^verbatim>\<open>_messages\<close> are \<open>remove_after_slot\<close> and \<open>messages_slot\<close>, the plain names
  being those of the properties.  The dictionary \<^verbatim>\<open>_invite_join_count\<close> is an
  association list in insertion order.  \<^verbatim>\<open>update_semaphore\<close> has no counterpart: every
  coroutine below runs from start to end.
\<close>

record AutoGUILD =
  include_pattern :: "string option"
  exclude_pattern :: "string option"
  remove_after_slot :: "timespec option"
  logging :: bool
  parent :: "nat option"
  auto_join :: "discovery option"
  guild_query_iter :: "query_iter option"
  guild_join_count :: int
  messages_slot :: "message list"
  removal_buffer_length :: int
  removal_timer_handle :: "timer option"
  guild_join_timer_handle :: "timer option"
  invite_join_count :: "(string \<times> nat) list"
  cache :: "dguild list"
  event_ctrl :: "nat option"
  gen_guilds :: "GUILD list"

section \<open>Name matching\<close>

text \<open>
  \<^verbatim>\<open>_check_name_match\<close>.  Python's \<^verbatim>\<open>and\<close>/\<^verbatim>\<open>or\<close> evaluate left to right and
  stop early; \<^verbatim>\<open>re.search(None, name)\<close> raises \<^verbatim>\<open>TypeError\<close>.
\<close>

definition check_name_match :: "re_search \<Rightarrow> AutoGUILD \<Rightarrow> string option \<Rightarrow> error + bool" where
  "check_name_match rs self name =
     (case name of
        None \<Rightarrow> Inr False
      | Some n \<Rightarrow>
          (case include_pattern self of
             None \<Rightarrow> Inl TypeError
           | Some inc \<Rightarrow>
               (case rs inc n of
                  Inl e \<Rightarrow> Inl e
                | Inr False \<Rightarrow> Inr False
                | Inr True \<Rightarrow>
                    (case exclude_pattern self of
                       None \<Rightarrow> Inr True
                     | Some exc \<Rightarrow>
                         (case rs exc n of
                            Inl e \<Rightarrow> Inl e
                          | Inr m \<Rightarrow> Inr (\<not> m))))))"


section \<open>The objects around an AutoGUILD\<close>

text \<open>
  What the methods reach through \<^verbatim>\<open>self.parent\<close>, \<^verbatim>\<open>self._event_ctrl\<close> and
  the modules they import: the listener table of the EventController, the guilds of
  \<^verbatim>\<open>parent.client\<close>, the clock read by \<^verbatim>\<open>datetime.now()\<close>, the records
  handed to \<^verbatim>\<open>logging.save_log\<close>, the number of join attempts made through the
  browser, the timers handed to the event loop by \<^verbatim>\<open>async_util.call_at\<close> (in the
  order of the calls), and the next unused object identity (for \<^verbatim>\<open>deepcopy\<close>).
  \<^verbatim>\<open>trace(...)\<close> only prints and is left out.
\<close>

datatype predicate = no_predicate | name_matches | is_self

record member =
  member_id :: nat
  member_name :: string
  member_guild :: dguild

record invite_log =
  log_guild_name :: "string option"
  log_guild_id :: nat
  log_invite_id :: string
  log_member_id :: nat
  log_member_name :: string

record world =
  listeners :: "(EventID \<times> callback \<times> predicate) list"
  client_guilds :: "dguild list"
  now :: int
  saved_logs :: "invite_log list"
  join_attempts :: nat
  scheduled :: "(timespec \<times> EventID) list"
  next_ref :: nat

text \<open>
  The capabilities that are not part of this repository's sources: the regular
  expression engine, \<^verbatim>\<open>GUILD.initialize\<close> (its returned exception, if any),
  \<^verbatim>\<open>message.initialize\<close> inside \<^verbatim>\<open>GUILD.add_message\<close>, and the three browser
  operations of \<^verbatim>\<open>web.SeleniumCLIENT\<close>.  \<^verbatim>\<open>join_guild\<close> says which guild, if
  any, the client sees afterwards.
\<close>

record env =
  re_search_fn :: re_search
  guild_initialize :: "dguild \<Rightarrow> error option"
  message_initialize :: "dguild \<Rightarrow> message \<Rightarrow> error option"
  fetch_invite_link :: "string \<Rightarrow> error + string option"
  random_server_click :: "error option"
  join_guild :: "string \<Rightarrow> error + dguild option"

definition GUILD_JOIN_INTERVAL :: timespec where
  "GUILD_JOIN_INTERVAL = Timedelta 45"

definition GUILD_MAX_AMOUNT :: nat where
  "GUILD_MAX_AMOUNT = 100"

text \<open>
  \<^verbatim>\<open>async_util.call_at(event_ctrl.emit, when, event, self)\<close>: a new task is handed
  to the event loop and returned.
\<close>

definition call_at :: "timespec \<Rightarrow> EventID \<Rightarrow> world \<Rightarrow> timer \<times> world" where
  "call_at at_time ev w =
     (\<lparr> fire_when = at_time, fire_event = ev, cancelled = False \<rparr>,
      w\<lparr>scheduled := scheduled w @ [(at_time, ev)]\<rparr>)"

subsection \<open>EventController\<close>

text \<open>
  Modelled from the spec: \<^verbatim>\<open>EventController\<close> (the \<^verbatim>\<open>events\<close> module is not
  among the sources).  A registration is \<open>(EventID, callback, predicate)\<close>; several
  may exist per EventID and they are kept in registration order; \<open>emit\<close> invokes
  every registered listener whose predicate accepts the payload.  Calling a method on
  the reference \<^verbatim>\<open>None\<close> raises \<^verbatim>\<open>AttributeError\<close>.
\<close>

definition add_listener ::
  "nat option \<Rightarrow> EventID \<Rightarrow> callback \<Rightarrow> predicate \<Rightarrow> world \<Rightarrow> error + world" where
  "add_listener ctrl ev cb p w =
     (case ctrl of
        None \<Rightarrow> Inl AttributeError
      | Some _ \<Rightarrow> Inr (w\<lparr>listeners := listeners w @ [(ev, cb, p)]\<rparr>))"

fun remove_first :: "EventID \<Rightarrow> callback \<Rightarrow> (EventID \<times> callback \<times> predicate) list
    \<Rightarrow> (EventID \<times> callback \<times> predicate) list" where
  "remove_first ev cb [] = []"
| "remove_first ev cb ((e, c, p) # ls) =
     (if e = ev \<and> c = cb then ls else (e, c, p) # remove_first ev cb ls)"

definition remove_listener :: "EventID \<Rightarrow> callback \<Rightarrow> world \<Rightarrow> world" where
  "remove_listener ev cb w = w\<lparr>listeners := remove_first ev cb (listeners w)\<rparr>"

text \<open>
  The callbacks \<open>emit\<close> invokes for a Discord event about a guild called \<open>name\<close>:
  the registrations of the EventID whose predicate holds, in registration order.
  \<open>accepts\<close> is the value of the predicate \<^verbatim>\<open>lambda x: self._check_name_match(x.guild.name)\<close>.
\<close>

definition emit_invokes :: "world \<Rightarrow> EventID \<Rightarrow> bool \<Rightarrow> callback list" where
  "emit_invokes w ev accepts =
     map (\<lambda>(e, c, p). c)
       (filter (\<lambda>(e, c, p). e = ev \<and> (p = name_matches \<longrightarrow> accepts)) (listeners w))"

text \<open>How many times a callback is registered for an EventID.\<close>

definition registrations :: "world \<Rightarrow> EventID \<Rightarrow> callback \<Rightarrow> nat" where
  "registrations w ev cb = length (filter (\<lambda>(e, c, p). e = ev \<and> c = cb) (listeners w))"

subsection \<open>Messages and generated guilds\<close>

text \<open>
  The comment in \<^verbatim>\<open>remove_message\<close>: deep copies of one source message compare
  equal.  \<^verbatim>\<open>deepcopy\<close> makes a new object with the same value.
\<close>

definition msg_eq :: "message \<Rightarrow> message \<Rightarrow> bool" where
  "msg_eq a b = (daf_id a = daf_id b)"

definition deepcopy :: "message \<Rightarrow> world \<Rightarrow> message \<times> world" where
  "deepcopy m w = (m\<lparr>ref := next_ref w\<rparr>, w\<lparr>next_ref := next_ref w + 1\<rparr>)"

fun deepcopy_list :: "message list \<Rightarrow> world \<Rightarrow> message list \<times> world" where
  "deepcopy_list [] w = ([], w)"
| "deepcopy_list (m # ms) w =
     (let (c, w1) = deepcopy m w; (cs, w2) = deepcopy_list ms w1 in (c # cs, w2))"

text \<open>\<^verbatim>\<open>list.index\<close> and \<^verbatim>\<open>list.remove\<close> with \<^verbatim>\<open>==\<close> of messages.\<close>

fun index_of :: "message \<Rightarrow> message list \<Rightarrow> error + int" where
  "index_of m [] = Inl ValueError"
| "index_of m (x # xs) =
     (if msg_eq x m then Inr 0
      else (case index_of m xs of Inl e \<Rightarrow> Inl e | Inr i \<Rightarrow> Inr (i + 1)))"

fun list_remove :: "message \<Rightarrow> message list \<Rightarrow> error + message list" where
  "list_remove m [] = Inl ValueError"
| "list_remove m (x # xs) =
     (if msg_eq x m then Inr xs
      else (case list_remove m xs of Inl e \<Rightarrow> Inl e | Inr ys \<Rightarrow> Inr (x # ys)))"

text \<open>How many messages of a list compare equal to \<open>m\<close>.\<close>

definition copies_of :: "message \<Rightarrow> message list \<Rightarrow> nat" where
  "copies_of m xs = length (filter (\<lambda>x. msg_eq x m) xs)"

text \<open>
  Modelled from the spec: \<^verbatim>\<open>GUILD.add_message\<close>, \<^verbatim>\<open>GUILD.remove_message\<close>
  and \<^verbatim>\<open>GUILD._close\<close> (\<^verbatim>\<open>guilduser.py\<close> is not among the sources).  A Guild
  manager holds its message list; adding initializes the message and then holds it,
  an exception of the initialization is raised and the message is not held; removing
  takes that message object out of the list; closing is counted.
\<close>

definition GUILD_add_message :: "env \<Rightarrow> GUILD \<Rightarrow> message \<Rightarrow> error option \<times> GUILD" where
  "GUILD_add_message ev g m =
     (case message_initialize ev (apiobject g) m of
        Some e \<Rightarrow> (Some e, g)
      | None \<Rightarrow> (None, g\<lparr>g_messages := g_messages g @ [m]\<rparr>))"

definition GUILD_remove_message :: "GUILD \<Rightarrow> message \<Rightarrow> error option \<times> GUILD" where
  "GUILD_remove_message g m =
     (case list_remove m (g_messages g) of
        Inl e \<Rightarrow> (Some e, g)
      | Inr ms \<Rightarrow> (None, g\<lparr>g_messages := ms\<rparr>))"

definition GUILD_close :: "GUILD \<Rightarrow> GUILD" where
  "GUILD_close g = g\<lparr>g_closed := g_closed g + 1\<rparr>"


section \<open>Construction and the message API\<close>

text \<open>
  The arguments of \<^verbatim>\<open>__init__\<close>.  \<^verbatim>\<open>re.sub(r"\s*\|\s*", '|', pattern)\<close> is the
  regular expression library again and is the parameter \<open>re_sub\<close>.
\<close>

record init_args =
  a_include_pattern :: string
  a_exclude_pattern :: "string option"
  a_remove_after :: "timespec option"
  a_messages :: "message list option"
  a_logging :: bool
  a_auto_join :: "discovery option"
  a_invite_track :: "string list option"
  a_removal_buffer_length :: int

text \<open>\<^verbatim>\<open>invite.split("/")[-1]\<close>: what follows the last slash.\<close>

definition last_segment :: "string \<Rightarrow> string" where
  "last_segment s = rev (takeWhile (\<lambda>c. c \<noteq> CHR ''/'') (rev s))"

text \<open>
  The keys of \<^verbatim>\<open>{k: 0 for k in ks}\<close> in iteration order: a repeated key keeps its
  first position.
\<close>

definition dict_keys :: "string list \<Rightarrow> string list" where
  "dict_keys ks = rev (remdups (rev ks))"

text \<open>
  \<^verbatim>\<open>__init__\<close>.  Its calls of \<^verbatim>\<open>add_message\<close> run while \<^verbatim>\<open>_gen_guilds\<close> is
  empty, so each only appends the message and clears its remote flag.
\<close>

definition init :: "(string \<Rightarrow> string) \<Rightarrow> init_args \<Rightarrow> AutoGUILD" where
  "init re_sub a =
     \<lparr> include_pattern =
         (if a_include_pattern a \<noteq> [] then Some (re_sub (a_include_pattern a)) else None),
       exclude_pattern =
         (case a_exclude_pattern a of
            None \<Rightarrow> None
          | Some x \<Rightarrow> (if x \<noteq> [] then Some (re_sub x) else None)),
       remove_after_slot = a_remove_after a,
       logging = a_logging a,
       parent = None,
       auto_join = a_auto_join a,
       guild_query_iter = None,
       guild_join_count = 0,
       messages_slot =
         map (\<lambda>m. m\<lparr>remote_allowed := False\<rparr>)
           (case a_messages a of None \<Rightarrow> [] | Some ms \<Rightarrow> ms),
       removal_buffer_length = a_removal_buffer_length a,
       removal_timer_handle = None,
       guild_join_timer_handle = None,
       invite_join_count =
         map (\<lambda>k. (k, 0))
           (dict_keys (map last_segment (case a_invite_track a of None \<Rightarrow> [] | Some ts \<Rightarrow> ts))),
       cache = [],
       event_ctrl = None,
       gen_guilds = [] \<rparr>"

text \<open>The properties \<^verbatim>\<open>messages\<close>, \<^verbatim>\<open>guilds\<close> and \<^verbatim>\<open>remove_after\<close>.\<close>

definition messages :: "AutoGUILD \<Rightarrow> message list" where
  "messages self = messages_slot self"

definition guilds :: "AutoGUILD \<Rightarrow> dguild list" where
  "guilds self = cache self"

definition remove_after :: "AutoGUILD \<Rightarrow> timespec option" where
  "remove_after self = remove_after_slot self"

text \<open>
  \<^verbatim>\<open>add_message\<close>: the template is appended, then every generated guild is handed
  its own deep copy.  \<^verbatim>\<open>asyncio.gather\<close> runs every future and raises the first
  exception.
\<close>

fun fan_out_add :: "env \<Rightarrow> message \<Rightarrow> GUILD list \<Rightarrow> world \<Rightarrow> error option \<times> GUILD list \<times> world" where
  "fan_out_add ev m [] w = (None, [], w)"
| "fan_out_add ev m (g # gs) w =
     (let (c, w1) = deepcopy m w;
          (r, g1) = GUILD_add_message ev g c;
          (rs, gs1, w2) = fan_out_add ev m gs w1
      in ((case r of Some e \<Rightarrow> Some e | None \<Rightarrow> rs), g1 # gs1, w2))"

definition add_message ::
  "env \<Rightarrow> AutoGUILD \<Rightarrow> world \<Rightarrow> message \<Rightarrow> error option \<times> AutoGUILD \<times> world" where
  "add_message ev self w m =
     (let m1 = m\<lparr>remote_allowed := False\<rparr>;
          self1 = self\<lparr>messages_slot := messages_slot self @ [m1]\<rparr>;
          (r, gs, w1) = fan_out_add ev m1 (gen_guilds self) w
      in (r, self1\<lparr>gen_guilds := gs\<rparr>, w1))"

text \<open>
  \<^verbatim>\<open>remove_message\<close>.  \<^verbatim>\<open>list.index\<close> raises \<^verbatim>\<open>ValueError\<close> when nothing
  compares equal, which ends the loop with the exception; the test against \<open>-1\<close>
  is kept as written.
\<close>

fun fan_out_remove :: "message \<Rightarrow> GUILD list \<Rightarrow> error option \<times> GUILD list" where
  "fan_out_remove m [] = (None, [])"
| "fan_out_remove m (g # gs) =
     (case index_of m (g_messages g) of
        Inl e \<Rightarrow> (Some e, g # gs)
      | Inr idx \<Rightarrow>
          (if idx = - 1 then (let (rs, gs1) = fan_out_remove m gs in (rs, g # gs1))
           else
             (let (r, g1) = GUILD_remove_message g (g_messages g ! nat idx);
                  (rs, gs1) = fan_out_remove m gs
              in ((case r of Some e \<Rightarrow> Some e | None \<Rightarrow> rs), g1 # gs1))))"

definition remove_message ::
  "AutoGUILD \<Rightarrow> message \<Rightarrow> error option \<times> AutoGUILD" where
  "remove_message self m =
     (case list_remove m (messages_slot self) of
        Inl e \<Rightarrow> (Some e, self)
      | Inr ms \<Rightarrow>
          (let (r, gs) = fan_out_remove m (gen_guilds self)
           in (r, self\<lparr>messages_slot := ms, gen_guilds := gs\<rparr>)))"

text \<open>
  \<^verbatim>\<open>_make_new_guild\<close>: the new manager gets a deep copy of the template list and
  is kept only if its \<^verbatim>\<open>initialize\<close> returned no exception.
\<close>

definition make_new_guild ::
  "env \<Rightarrow> AutoGUILD \<Rightarrow> world \<Rightarrow> dguild \<Rightarrow> AutoGUILD \<times> world" where
  "make_new_guild ev self w guild =
     (let (ms, w1) = deepcopy_list (messages_slot self) w;
          new_guild = \<lparr> apiobject = guild, g_messages = ms, g_logging = logging self,
                        g_removal_buffer_length = 0, g_closed = 0 \<rparr>
      in (case guild_initialize ev guild of
            Some e \<Rightarrow> (self, w1)
          | None \<Rightarrow> (self\<lparr>gen_guilds := gen_guilds self @ [new_guild]\<rparr>, w1)))"


section \<open>Guild and invite queries\<close>

text \<open>\<^verbatim>\<open>_get_guilds\<close>: the guilds of the client whose name matches; the cache is replaced.\<close>

fun match_guilds :: "re_search \<Rightarrow> AutoGUILD \<Rightarrow> dguild list \<Rightarrow> error + dguild list" where
  "match_guilds rs self [] = Inr []"
| "match_guilds rs self (g # gs) =
     (case check_name_match rs self (dg_name g) of
        Inl e \<Rightarrow> Inl e
      | Inr b \<Rightarrow>
          (case match_guilds rs self gs of
             Inl e \<Rightarrow> Inl e
           | Inr r \<Rightarrow> Inr (if b then g # r else r)))"

definition get_guilds :: "env \<Rightarrow> AutoGUILD \<Rightarrow> world \<Rightarrow> (error + dguild list) \<times> AutoGUILD" where
  "get_guilds ev self w =
     (case parent self of
        None \<Rightarrow> (Inl AttributeError, self)
      | Some _ \<Rightarrow>
          (case match_guilds (re_search_fn ev) self (client_guilds w) of
             Inl e \<Rightarrow> (Inl e, self)
           | Inr gs \<Rightarrow> (Inr gs, self\<lparr>cache := gs\<rparr>)))"

text \<open>
  \<^verbatim>\<open>_get_invites\<close>: the invites of every matching guild in which the client may
  manage the guild; a \<^verbatim>\<open>discord.HTTPException\<close> of one guild skips that guild.
  The client is a member of each of its guilds, so \<^verbatim>\<open>get_member\<close> finds it.
\<close>

fun collect_invites :: "dguild list \<Rightarrow> error + invite list" where
  "collect_invites [] = Inr []"
| "collect_invites (g # gs) =
     (if manage_guild g then
        (case dg_invites g of
           Inl e \<Rightarrow> (if e = HTTPException then collect_invites gs else Inl e)
         | Inr is \<Rightarrow>
             (case collect_invites gs of
                Inl e \<Rightarrow> Inl e
              | Inr js \<Rightarrow> Inr (is @ js)))
      else collect_invites gs)"

definition get_invites :: "env \<Rightarrow> AutoGUILD \<Rightarrow> world \<Rightarrow> (error + invite list) \<times> AutoGUILD" where
  "get_invites ev self w =
     (case get_guilds ev self w of
        (Inl e, self1) \<Rightarrow> (Inl e, self1)
      | (Inr gs, self1) \<Rightarrow> (collect_invites gs, self1))"

text \<open>\<^verbatim>\<open>{invite.id: invite.uses for invite in invites}\<close>: a later invite of the same id wins.\<close>

definition invites_dict :: "invite list \<Rightarrow> (string \<rightharpoonup> nat)" where
  "invites_dict invs = map_of (rev (map (\<lambda>i. (invite_id i, uses i)) invs))"

section \<open>Initialization\<close>

text \<open>
  \<^verbatim>\<open>initialize\<close> is decorated with \<^verbatim>\<open>except_return\<close>: an exception raised in it is
  its return value.  The body is a sequence of blocks; each gives the exception it
  raised, if any, and the state it left.
\<close>

type_synonym state = "AutoGUILD \<times> world"

fun run_steps :: "(state \<Rightarrow> error option \<times> state) list \<Rightarrow> state \<Rightarrow> error option \<times> state" where
  "run_steps [] s = (None, s)"
| "run_steps (f # fs) s =
     (case f s of
        (Some e, s1) \<Rightarrow> (Some e, s1)
      | (None, s1) \<Rightarrow> run_steps fs s1)"

definition init_auto_join :: "state \<Rightarrow> error option \<times> state" where
  "init_auto_join s =
     (case s of (self, w) \<Rightarrow>
        (case auto_join self of
           None \<Rightarrow> (None, self, w)
         | Some d \<Rightarrow>
             (case init_result d of
                Some res \<Rightarrow> (Some res, self, w)
              | None \<Rightarrow> (None, self\<lparr>guild_query_iter := Some (feed d)\<rparr>, w))))"

definition init_remove_after :: "state \<Rightarrow> error option \<times> state" where
  "init_remove_after s =
     (case s of (self, w) \<Rightarrow>
        (case remove_after_slot self of
           None \<Rightarrow> (None, self, w)
         | Some ra \<Rightarrow>
             (let deadline =
                    (case ra of
                       Timedelta d \<Rightarrow> Datetime (now w + d)
                     | Datetime t \<Rightarrow> Datetime (now w));
                  self1 = self\<lparr>remove_after_slot := Some deadline\<rparr>
              in (case event_ctrl self1 of
                    None \<Rightarrow> (Some AttributeError, self1, w)
                  | Some _ \<Rightarrow>
                      (case call_at deadline server_removed w of (t, w1) \<Rightarrow>
                         (None, self1\<lparr>removal_timer_handle := Some t\<rparr>, w1))))))"

text \<open>
  The loop over \<^verbatim>\<open>list(counts.keys())\<close>: the count is taken from the query or
  the key is deleted, and then both listeners are registered, in every iteration.
\<close>

fun invite_loop :: "string list \<Rightarrow> (string \<rightharpoonup> nat) \<Rightarrow> state \<Rightarrow> error option \<times> state" where
  "invite_loop [] d s = (None, s)"
| "invite_loop (k # ks) d s =
     (case s of (self, w) \<Rightarrow>
        (let self1 =
               (case d k of
                  Some u \<Rightarrow> self\<lparr>invite_join_count := AList.update k u (invite_join_count self)\<rparr>
                | None \<Rightarrow> self\<lparr>invite_join_count := AList.delete k (invite_join_count self)\<rparr>)
         in (case add_listener (event_ctrl self1) discord_member_join on_member_join name_matches w of
               Inl e \<Rightarrow> (Some e, self1, w)
             | Inr w1 \<Rightarrow>
                 (case add_listener (event_ctrl self1) discord_invite_delete on_invite_delete
                         name_matches w1 of
                    Inl e \<Rightarrow> (Some e, self1, w1)
                  | Inr w2 \<Rightarrow> invite_loop ks d (self1, w2)))))"

definition init_invites :: "env \<Rightarrow> state \<Rightarrow> error option \<times> state" where
  "init_invites ev s =
     (case s of (self, w) \<Rightarrow>
        (if length (invite_join_count self) \<noteq> 0 then
           (case get_invites ev self w of
              (Inl e, self1) \<Rightarrow>
                (if e = HTTPException then (None, self1, w) else (Some e, self1, w))
            | (Inr invs, self1) \<Rightarrow>
                (case invite_loop (map fst (invite_join_count self1)) (invites_dict invs) (self1, w) of
                   (Some e, s1) \<Rightarrow> (if e = HTTPException then (None, s1) else (Some e, s1))
                 | (None, s1) \<Rightarrow> (None, s1)))
         else (None, self, w)))"

text \<open>\<^verbatim>\<open>_reset_auto_join_timer\<close>.\<close>

definition reset_auto_join_timer :: "AutoGUILD \<Rightarrow> world \<Rightarrow> error + state" where
  "reset_auto_join_timer self w =
     (case event_ctrl self of
        None \<Rightarrow> Inl AttributeError
      | Some _ \<Rightarrow>
          (case call_at GUILD_JOIN_INTERVAL auto_guild_start_join w of (t, w1) \<Rightarrow>
             Inr (self\<lparr>guild_join_timer_handle := Some t\<rparr>, w1)))"

definition init_join_timer :: "state \<Rightarrow> error option \<times> state" where
  "init_join_timer s =
     (case s of (self, w) \<Rightarrow>
        (case auto_join self of
           None \<Rightarrow> (None, self, w)
         | Some _ \<Rightarrow>
             (case reset_auto_join_timer self w of
                Inl e \<Rightarrow> (Some e, self, w)
              | Inr (self1, w1) \<Rightarrow>
                  (case add_listener (event_ctrl self1) auto_guild_start_join join_guilds is_self w1 of
                     Inl e \<Rightarrow> (Some e, self1, w1)
                   | Inr w2 \<Rightarrow> (None, self1, w2)))))"

definition init_listeners :: "state \<Rightarrow> error option \<times> state" where
  "init_listeners s =
     (case s of (self, w) \<Rightarrow>
        (case add_listener (event_ctrl self) discord_guild_join on_guild_join name_matches w of
           Inl e \<Rightarrow> (Some e, self, w)
         | Inr w1 \<Rightarrow>
             (case add_listener (event_ctrl self) discord_guild_remove on_guild_remove no_predicate w1 of
                Inl e \<Rightarrow> (Some e, self, w1)
              | Inr w2 \<Rightarrow>
                  (case add_listener (event_ctrl self) server_update on_update is_self w2 of
                     Inl e \<Rightarrow> (Some e, self, w2)
                   | Inr w3 \<Rightarrow> (None, self, w3)))))"

fun make_guilds :: "env \<Rightarrow> dguild list \<Rightarrow> state \<Rightarrow> state" where
  "make_guilds ev [] s = s"
| "make_guilds ev (g # gs) s =
     (case s of (self, w) \<Rightarrow> make_guilds ev gs (make_new_guild ev self w g))"

definition init_guilds :: "env \<Rightarrow> state \<Rightarrow> error option \<times> state" where
  "init_guilds ev s =
     (case s of (self, w) \<Rightarrow>
        (case get_guilds ev self w of
           (Inl e, self1) \<Rightarrow> (Some e, self1, w)
         | (Inr gs, self1) \<Rightarrow> (None, make_guilds ev gs (self1, w))))"

definition initialize ::
  "env \<Rightarrow> AutoGUILD \<Rightarrow> world \<Rightarrow> nat option \<Rightarrow> nat option \<Rightarrow> error option \<times> state" where
  "initialize ev self w par ctrl =
     (case par of
        None \<Rightarrow> (Some AttributeError, self, w)
      | Some _ \<Rightarrow>
          run_steps
            [init_auto_join, init_remove_after, init_invites ev, init_join_timer,
             init_listeners, init_guilds ev]
            (self\<lparr>event_ctrl := ctrl, parent := par\<rparr>, w))"


section \<open>Closing and updating\<close>

text \<open>
  \<^verbatim>\<open>_close\<close>.  A timer that exists and is not cancelled is cancelled; the
  auto-join capability and every generated guild are closed.  No statement of the
  method assigns \<^verbatim>\<open>_event_ctrl\<close>.
\<close>

definition cancel_timer :: "timer option \<Rightarrow> timer option" where
  "cancel_timer h =
     (case h of
        None \<Rightarrow> None
      | Some t \<Rightarrow> (if \<not> cancelled t then Some (t\<lparr>cancelled := True\<rparr>) else Some t))"

definition close :: "AutoGUILD \<Rightarrow> world \<Rightarrow> state" where
  "close self w =
     (case event_ctrl self of
        None \<Rightarrow> (self, w)
      | Some _ \<Rightarrow>
          (let w1 = remove_listener auto_guild_start_join join_guilds w;
               w2 = remove_listener server_update on_update w1;
               w3 = remove_listener discord_member_join on_member_join w2;
               w4 = remove_listener discord_invite_delete on_invite_delete w3;
               self1 = self\<lparr>removal_timer_handle := cancel_timer (removal_timer_handle self)\<rparr>;
               self2 = self1\<lparr>guild_join_timer_handle := cancel_timer (guild_join_timer_handle self1)\<rparr>;
               self3 =
                 (case auto_join self2 of
                    None \<Rightarrow> self2
                  | Some d \<Rightarrow> self2\<lparr>auto_join := Some (d\<lparr>d_closed := d_closed d + 1\<rparr>)\<rparr>)
           in (self3\<lparr>gen_guilds := map GUILD_close (gen_guilds self3)\<rparr>, w4)))"

text \<open>
  The keyword arguments of \<^verbatim>\<open>update\<close>: each parameter of \<^verbatim>\<open>__init__\<close> may be
  given or not.
\<close>

record kwargs =
  k_include_pattern :: "string option"
  k_exclude_pattern :: "string option option"
  k_remove_after :: "timespec option option"
  k_messages :: "message list option option"
  k_logging :: "bool option"
  k_auto_join :: "discovery option option"
  k_invite_track :: "string list option option"
  k_removal_buffer_length :: "int option"

text \<open>
  \<^verbatim>\<open>self.invite_track\<close>: the class has neither a slot nor a property nor a method
  of this name (its slots are listed in \<^verbatim>\<open>__slots__\<close>, its properties are
  \<^verbatim>\<open>messages\<close>, \<^verbatim>\<open>guilds\<close> and \<^verbatim>\<open>remove_after\<close>), so reading it raises.
\<close>

definition invite_track :: "AutoGUILD \<Rightarrow> error + string list option" where
  "invite_track self = Inl AttributeError"

text \<open>
  Modelled from the spec: \<^verbatim>\<open>async_util.update_obj_param\<close> (the module is not among
  the sources).  It snapshots the current construction parameters, merges them with
  the given ones (given ones win), and re-runs the construction and the
  initialization with the merged parameters on the same object.  When the
  initialization fails the object gets its previous attributes back and the
  failure is raised.
\<close>

definition merged_args :: "AutoGUILD \<Rightarrow> kwargs \<Rightarrow> message list option \<Rightarrow> string list option \<Rightarrow> init_args" where
  "merged_args self kw msgs track =
     \<lparr> a_include_pattern =
         (case k_include_pattern kw of
            Some x \<Rightarrow> x
          | None \<Rightarrow> (case include_pattern self of Some x \<Rightarrow> x | None \<Rightarrow> [])),
       a_exclude_pattern =
         (case k_exclude_pattern kw of Some x \<Rightarrow> x | None \<Rightarrow> exclude_pattern self),
       a_remove_after =
         (case k_remove_after kw of Some x \<Rightarrow> x | None \<Rightarrow> remove_after self),
       a_messages = msgs,
       a_logging = (case k_logging kw of Some x \<Rightarrow> x | None \<Rightarrow> logging self),
       a_auto_join = (case k_auto_join kw of Some x \<Rightarrow> x | None \<Rightarrow> auto_join self),
       a_invite_track = track,
       a_removal_buffer_length =
         (case k_removal_buffer_length kw of Some x \<Rightarrow> x | None \<Rightarrow> removal_buffer_length self) \<rparr>"

definition update_obj_param ::
  "(string \<Rightarrow> string) \<Rightarrow> env \<Rightarrow> AutoGUILD \<Rightarrow> world \<Rightarrow> nat option \<times> nat option \<Rightarrow> init_args
    \<Rightarrow> error option \<times> state" where
  "update_obj_param re_sub ev self w init_options a =
     (case initialize ev (init re_sub a) w (fst init_options) (snd init_options) of
        (Some e, self1, w1) \<Rightarrow> (Some e, self, w1)
      | (None, self1, w1) \<Rightarrow> (None, self1, w1))"

text \<open>
  \<^verbatim>\<open>_on_update\<close>, the listener of the \<^verbatim>\<open>server_update\<close> event that
  \<^verbatim>\<open>update\<close> emits with its arguments.  \<open>update_try\<close> is the body of its
  \<^verbatim>\<open>try\<close>; its \<^verbatim>\<open>except\<close> runs \<^verbatim>\<open>initialize\<close>, drops what that returns and
  raises the exception again.
\<close>

definition update_try ::
  "(string \<Rightarrow> string) \<Rightarrow> env \<Rightarrow> AutoGUILD \<Rightarrow> world \<Rightarrow> (nat option \<times> nat option) option \<Rightarrow> kwargs
    \<Rightarrow> error option \<times> state" where
  "update_try re_sub ev self w init_options kw =
     (case (case k_invite_track kw of
              Some t \<Rightarrow> Inr t
            | None \<Rightarrow> invite_track self) of
        Inl e \<Rightarrow> (Some e, self, w)
      | Inr track \<Rightarrow>
          (let msgs = (case k_messages kw of Some ms \<Rightarrow> ms | None \<Rightarrow> Some (messages_slot self));
               opts = (case init_options of
                         None \<Rightarrow> (parent self, event_ctrl self)
                       | Some io \<Rightarrow> io)
           in update_obj_param re_sub ev self w opts (merged_args self kw msgs track)))"

definition on_update_handler ::
  "(string \<Rightarrow> string) \<Rightarrow> env \<Rightarrow> AutoGUILD \<Rightarrow> world \<Rightarrow> (nat option \<times> nat option) option \<Rightarrow> kwargs
    \<Rightarrow> error option \<times> state" where
  "on_update_handler re_sub ev self w init_options kw =
     (case close self w of (self1, w1) \<Rightarrow>
        (case update_try re_sub ev self1 w1 init_options kw of
           (Some e, self2, w2) \<Rightarrow>
             (case initialize ev self2 w2 (parent self2) (event_ctrl self2) of
                (r, self3, w3) \<Rightarrow> (Some e, self3, w3))
         | (None, self2, w2) \<Rightarrow> (None, self2, w2)))"

section \<open>Auto join\<close>

definition get_guild :: "world \<Rightarrow> nat \<Rightarrow> dguild option" where
  "get_guild w i = find (\<lambda>g. dg_id g = i) (client_guilds w)"

text \<open>
  The test inside \<^verbatim>\<open>get_next_guild\<close>: true when the candidate is rejected by
  the include pattern or by the exclude pattern.
\<close>

definition rejected_by_pattern :: "re_search \<Rightarrow> AutoGUILD \<Rightarrow> string \<Rightarrow> error + bool" where
  "rejected_by_pattern rs self name =
     (case include_pattern self of
        None \<Rightarrow> Inl TypeError
      | Some inc \<Rightarrow>
          (case rs inc name of
             Inl e \<Rightarrow> Inl e
           | Inr False \<Rightarrow> Inr True
           | Inr True \<Rightarrow>
               (case exclude_pattern self of
                  None \<Rightarrow> Inr False
                | Some exc \<Rightarrow>
                    (case rs exc name of
                       Inl e \<Rightarrow> Inl e
                     | Inr m \<Rightarrow> Inr m))))"

text \<open>
  The inner coroutine \<^verbatim>\<open>get_next_guild\<close>.  Both \<^verbatim>\<open>except\<close> clauses set the
  iterator to \<^verbatim>\<open>None\<close> and fall off the end, which returns \<^verbatim>\<open>None\<close>.
\<close>

definition get_next_guild :: "env \<Rightarrow> AutoGUILD \<Rightarrow> query_result option \<times> AutoGUILD" where
  "get_next_guild ev self =
     (case guild_query_iter self of
        None \<Rightarrow> (None, self\<lparr>guild_query_iter := None\<rparr>)
      | Some [] \<Rightarrow> (None, self\<lparr>guild_query_iter := None\<rparr>)
      | Some (Inl e # rest) \<Rightarrow> (None, self\<lparr>guild_query_iter := None\<rparr>)
      | Some (Inr yielded # rest) \<Rightarrow>
          (let self1 = self\<lparr>guild_query_iter := Some rest\<rparr>
           in (case rejected_by_pattern (re_search_fn ev) self1 (qr_name yielded) of
                 Inl e \<Rightarrow> (None, self1\<lparr>guild_query_iter := None\<rparr>)
               | Inr True \<Rightarrow> (None, self1)
               | Inr False \<Rightarrow> (Some yielded, self1))))"

text \<open>
  The \<^verbatim>\<open>try\<close> block of the loop: one attempt through the browser.  Every
  exception is caught and traced; the count grows only when the guild is visible
  afterwards.
\<close>

definition attempt_join :: "env \<Rightarrow> AutoGUILD \<Rightarrow> world \<Rightarrow> query_result \<Rightarrow> state" where
  "attempt_join ev self w yielded =
     (let w0 = w\<lparr>join_attempts := join_attempts w + 1\<rparr>
      in (case fetch_invite_link ev (qr_url yielded) of
            Inl e \<Rightarrow> (self, w0)
          | Inr None \<Rightarrow> (self, w0)
          | Inr (Some invite_url) \<Rightarrow>
              (case random_server_click ev of
                 Some e \<Rightarrow> (self, w0)
               | None \<Rightarrow>
                   (case join_guild ev invite_url of
                      Inl e \<Rightarrow> (self, w0)
                    | Inr seen \<Rightarrow>
                        (let w1 = (case seen of
                                     None \<Rightarrow> w0
                                   | Some g \<Rightarrow> w0\<lparr>client_guilds := client_guilds w0 @ [g]\<rparr>)
                         in (if get_guild w1 (qr_id yielded) = None then (self, w1)
                             else (self\<lparr>guild_join_count := guild_join_count self + 1\<rparr>, w1)))))))"

text \<open>
  The \<^verbatim>\<open>while True\<close> loop with what follows it.  \<^verbatim>\<open>return\<close> leaves the method
  at once; \<^verbatim>\<open>continue\<close> asks for the next candidate; \<^verbatim>\<open>break\<close> goes on to
  \<^verbatim>\<open>_reset_auto_join_timer\<close>.
\<close>

function join_loop :: "env \<Rightarrow> AutoGUILD \<Rightarrow> world \<Rightarrow> error option \<times> state" where
  "join_loop ev self w =
     (case get_next_guild ev self of
        (None, self1) \<Rightarrow> (None, self1, w)
      | (Some yielded, self1) \<Rightarrow>
          (if get_guild w (qr_id yielded) \<noteq> None then
             join_loop ev (self1\<lparr>guild_join_count := guild_join_count self1 + 1\<rparr>) w
           else
             (case attempt_join ev self1 w yielded of (self2, w2) \<Rightarrow>
                (case reset_auto_join_timer self2 w2 of
                   Inl e \<Rightarrow> (Some e, self2, w2)
                 | Inr (self3, w3) \<Rightarrow> (None, self3, w3)))))"
  by pat_completeness auto
termination
  by (relation "measure (\<lambda>(ev, self, w).
        (case guild_query_iter self of None \<Rightarrow> 0 | Some l \<Rightarrow> Suc (length l)))")
     (auto simp: get_next_guild_def Let_def split: option.splits list.splits sum.splits bool.splits)

declare join_loop.simps [simp del]

text \<open>\<^verbatim>\<open>_join_guilds\<close>, the listener of \<^verbatim>\<open>auto_guild_start_join\<close>.\<close>

definition stop_joining :: "AutoGUILD \<Rightarrow> world \<Rightarrow> error option \<times> state" where
  "stop_joining self w =
     (case event_ctrl self of
        None \<Rightarrow> (Some AttributeError, self, w)
      | Some _ \<Rightarrow> (None, self, remove_listener auto_guild_start_join join_guilds w))"

definition join_guilds_handler :: "env \<Rightarrow> AutoGUILD \<Rightarrow> world \<Rightarrow> error option \<times> state" where
  "join_guilds_handler ev self w =
     (case parent self of
        None \<Rightarrow> (Some AttributeError, self, w)
      | Some _ \<Rightarrow>
          (case guild_query_iter self of
             None \<Rightarrow> stop_joining self w
           | Some _ \<Rightarrow>
               (case auto_join self of
                  None \<Rightarrow> (Some AttributeError, self, w)
                | Some discovery \<Rightarrow>
                    (if guild_join_count self = limit discovery
                        \<or> length (client_guilds w) = GUILD_MAX_AMOUNT
                     then stop_joining self w
                     else join_loop ev self w))))"

section \<open>Discord events\<close>

text \<open>
  \<^verbatim>\<open>_on_member_join\<close>.  The loop over \<^verbatim>\<open>counts.items()\<close> stops at the first
  invite whose fetched use count differs from the stored one; \<^verbatim>\<open>invites[id_]\<close>
  raises \<^verbatim>\<open>KeyError\<close> for an id that was not fetched.
\<close>

fun first_changed :: "(string \<times> nat) list \<Rightarrow> (string \<rightharpoonup> nat) \<Rightarrow> error + (string \<times> nat) option" where
  "first_changed [] d = Inr None"
| "first_changed ((k, last_uses) # rest) d =
     (case d k of
        None \<Rightarrow> Inl KeyError
      | Some u \<Rightarrow> (if last_uses \<noteq> u then Inr (Some (k, u)) else first_changed rest d))"

definition on_member_join_handler :: "env \<Rightarrow> AutoGUILD \<Rightarrow> world \<Rightarrow> member \<Rightarrow> error option \<times> state" where
  "on_member_join_handler ev self w memb =
     (case get_invites ev self w of
        (Inl e, self1) \<Rightarrow> (Some e, self1, w)
      | (Inr invs, self1) \<Rightarrow>
          (case first_changed (invite_join_count self1) (invites_dict invs) of
             Inl e \<Rightarrow> (Some e, self1, w)
           | Inr None \<Rightarrow> (None, self1, w)
           | Inr (Some (k, u)) \<Rightarrow>
               (None,
                self1\<lparr>invite_join_count := AList.update k u (invite_join_count self1)\<rparr>,
                w\<lparr>saved_logs := saved_logs w @
                     [\<lparr> log_guild_name = dg_name (member_guild memb),
                        log_guild_id = dg_id (member_guild memb),
                        log_invite_id = k,
                        log_member_id = member_id memb,
                        log_member_name = member_name memb \<rparr>]\<rparr>)))"

text \<open>\<^verbatim>\<open>_on_invite_delete\<close>, \<^verbatim>\<open>_on_guild_join\<close> and \<^verbatim>\<open>_on_guild_remove\<close>.\<close>

definition on_invite_delete_handler :: "AutoGUILD \<Rightarrow> string \<Rightarrow> AutoGUILD" where
  "on_invite_delete_handler self deleted =
     (if deleted \<in> set (map fst (invite_join_count self))
      then self\<lparr>invite_join_count := AList.delete deleted (invite_join_count self)\<rparr>
      else self)"

definition on_guild_join_handler :: "env \<Rightarrow> AutoGUILD \<Rightarrow> world \<Rightarrow> dguild \<Rightarrow> state" where
  "on_guild_join_handler ev self w guild = make_new_guild ev self w guild"

fun drop_guild :: "dguild \<Rightarrow> GUILD list \<Rightarrow> GUILD list" where
  "drop_guild guild [] = []"
| "drop_guild guild (g # gs) =
     (if dg_id (apiobject g) = dg_id guild then gs else g # drop_guild guild gs)"

definition on_guild_remove_handler :: "AutoGUILD \<Rightarrow> dguild \<Rightarrow> AutoGUILD" where
  "on_guild_remove_handler self guild = self\<lparr>gen_guilds := drop_guild guild (gen_guilds self)\<rparr>"


section \<open>Concrete instances\<close>

text \<open>
  A search for patterns without metacharacters (the pattern occurs in the name), and
  the objects used to run the definitions above on concrete inputs.
\<close>

fun occurs_in :: "string \<Rightarrow> string \<Rightarrow> bool" where
  "occurs_in p [] = (p = [])"
| "occurs_in p (c # cs) = (take (length p) (c # cs) = p \<or> occurs_in p cs)"

definition literal_search :: re_search where
  "literal_search p n = Inr (occurs_in p n)"

definition plain_args :: "string \<Rightarrow> string option \<Rightarrow> init_args" where
  "plain_args inc exc =
     \<lparr> a_include_pattern = inc, a_exclude_pattern = exc, a_remove_after = None,
       a_messages = None, a_logging = False, a_auto_join = None, a_invite_track = None,
       a_removal_buffer_length = 50 \<rparr>"


definition plain_env :: env where
  "plain_env =
     \<lparr> re_search_fn = literal_search,
       guild_initialize = (\<lambda>g. None),
       message_initialize = (\<lambda>g m. None),
       fetch_invite_link = (\<lambda>url. Inr (Some url)),
       random_server_click = None,
       join_guild = (\<lambda>url. Inr None) \<rparr>"

definition world_at :: "int \<Rightarrow> dguild list \<Rightarrow> world" where
  "world_at t gs =
     \<lparr> listeners = [], client_guilds = gs, now = t, saved_logs = [], join_attempts = 0,
       scheduled = [], next_ref = 100 \<rparr>"

definition named_guild :: "nat \<Rightarrow> string \<Rightarrow> invite list \<Rightarrow> dguild" where
  "named_guild i n invs =
     \<lparr> dg_id = i, dg_name = Some n, manage_guild = True, dg_invites = Inr invs \<rparr>"

definition msg :: "nat \<Rightarrow> message" where
  "msg i = \<lparr> ref = i, daf_id = i, remote_allowed = True \<rparr>"

definition no_kwargs :: kwargs where
  "no_kwargs =
     \<lparr> k_include_pattern = None, k_exclude_pattern = None, k_remove_after = None,
       k_messages = None, k_logging = None, k_auto_join = None, k_invite_track = None,
       k_removal_buffer_length = None \<rparr>"

text \<open>
  An AutoGUILD for the pattern \<open>shill\<close>, initialized at time 1000 on an account
  whose client is in the guilds \<open>shill-chat\<close> and \<open>general\<close>.
\<close>

definition two_guilds :: "dguild list" where
  "two_guilds = [named_guild 1 ''shill-chat'' [], named_guild 2 ''general'' []]"

definition running :: "init_args \<Rightarrow> state" where
  "running a = snd (initialize plain_env (init id a) (world_at 1000 two_guilds) (Some 0) (Some 0))"

text \<open>
  The same, tracking the invites \<open>abc\<close> and \<open>xyz\<close>, where \<open>shill-chat\<close> has the
  invites \<open>abc\<close> (used 3 times) and \<open>xyz\<close> (used 7 times).
\<close>

definition tracking_args :: init_args where
  "tracking_args =
     (plain_args ''shill'' None)
       \<lparr>a_invite_track := Some [''https://discord.gg/abc'', ''xyz'']\<rparr>"

definition invite_guilds :: "nat \<Rightarrow> nat \<Rightarrow> dguild list" where
  "invite_guilds a x =
     [named_guild 1 ''shill-chat''
        [\<lparr>invite_id = ''abc'', uses = a\<rparr>, \<lparr>invite_id = ''xyz'', uses = x\<rparr>],
      named_guild 2 ''general'' []]"

text \<open>A member who joins \<open>shill-chat\<close>.\<close>

definition joining_member :: member where
  "joining_member =
     \<lparr> member_id = 42, member_name = ''newcomer'',
       member_guild = named_guild 1 ''shill-chat'' [] \<rparr>"

text \<open>
  An AutoGUILD for \<open>shill\<close> with an auto-join capability whose discovery feed is
  \<open>fd\<close> and whose limit is \<open>l\<close>, after its initialization.
\<close>

definition candidate :: "nat \<Rightarrow> string \<Rightarrow> error + query_result" where
  "candidate i n = Inr \<lparr> qr_id = i, qr_name = n, qr_url = n \<rparr>"

definition joining :: "query_iter \<Rightarrow> int \<Rightarrow> state" where
  "joining fd l =
     snd (initialize plain_env
            (init id ((plain_args ''shill'' None)
               \<lparr>a_auto_join := Some \<lparr> limit = l, feed = fd, init_result = None, d_closed = 0 \<rparr>\<rparr>))
            (world_at 1000 two_guilds) (Some 0) (Some 0))"

text \<open>
  Two guilds that match \<open>shill\<close>, each with what its \<^verbatim>\<open>invites()\<close> gives, and the
  AutoGUILD tracking \<open>abc\<close> and \<open>xyz\<close> after its initialization when \<open>shill-chat\<close>
  had the invite \<open>abc\<close> (5 uses) and \<open>shill-two\<close> the invite \<open>xyz\<close> (7 uses).
\<close>

definition shill_guilds :: "error + invite list \<Rightarrow> error + invite list \<Rightarrow> dguild list" where
  "shill_guilds a b =
     [\<lparr> dg_id = 1, dg_name = Some ''shill-chat'', manage_guild = True, dg_invites = a \<rparr>,
      \<lparr> dg_id = 3, dg_name = Some ''shill-two'', manage_guild = True, dg_invites = b \<rparr>]"

definition tracking_two :: state where
  "tracking_two =
     snd (initialize plain_env (init id tracking_args)
            (world_at 1000
               (shill_guilds (Inr [\<lparr>invite_id = ''abc'', uses = 5\<rparr>])
                             (Inr [\<lparr>invite_id = ''xyz'', uses = 7\<rparr>])))
            (Some 0) (Some 0))"

section \<open>Name matching: include and exclude\<close>

text \<open>
  C3.  For every name and every stored pattern pair, \<open>_check_name_match\<close> returns
  true exactly when the search for the include pattern finds a match and the exclude
  pattern is absent or its search finds none.  In particular a name that both
  patterns match is not a match.
\<close>

theorem check_name_match_iff:
  "((check_name_match rs self (Some name) = Inr True) =
     ((\<exists>inc. include_pattern self = Some inc \<and> rs inc name = Inr True) \<and>
      (exclude_pattern self = None \<or>
       (\<exists>exc. exclude_pattern self = Some exc \<and> rs exc name = Inr False)))) \<and>
   (\<forall>inc exc. include_pattern self = Some inc \<and> exclude_pattern self = Some exc \<and>
       rs inc name = Inr True \<and> rs exc name = Inr True \<longrightarrow>
       check_name_match rs self (Some name) = Inr False)"
  by (auto simp: check_name_match_def split: option.splits sum.splits bool.splits)

theorem check_name_match_iff_witness:
  "check_name_match literal_search (init id (plain_args ''shill'' None)) (Some ''shill-chat'') = Inr True \<and>
   check_name_match literal_search (init id (plain_args ''shill'' (Some ''chat''))) (Some ''shill-chat'') = Inr False \<and>
   check_name_match literal_search (init id (plain_args ''shill'' (Some ''promo''))) (Some ''shill-chat'') = Inr True"
  using check_name_match_iff [of literal_search "init id (plain_args ''shill'' None)" "''shill-chat''"]
    check_name_match_iff [of literal_search "init id (plain_args ''shill'' (Some ''chat''))" "''shill-chat''"]
    check_name_match_iff [of literal_search "init id (plain_args ''shill'' (Some ''promo''))" "''shill-chat''"]
  by (simp add: init_def plain_args_def literal_search_def)


section \<open>What the blocks of \<open>initialize\<close> change\<close>

lemma deepcopy_list_snd:
  "snd (deepcopy_list ms w) = w\<lparr>next_ref := next_ref w + length ms\<rparr>"
  by (induction ms arbitrary: w) (simp_all add: deepcopy_def Let_def case_prod_beta)

lemma deepcopy_list_world:
  "listeners (snd (deepcopy_list ms w)) = listeners w \<and>
   client_guilds (snd (deepcopy_list ms w)) = client_guilds w \<and>
   now (snd (deepcopy_list ms w)) = now w \<and>
   saved_logs (snd (deepcopy_list ms w)) = saved_logs w \<and>
   join_attempts (snd (deepcopy_list ms w)) = join_attempts w"
  by (simp add: deepcopy_list_snd)

lemma make_new_guild_listeners:
  "listeners (snd (make_new_guild ev self w g)) = listeners w"
  using deepcopy_list_world [of "messages_slot self" w]
  by (auto simp: make_new_guild_def Let_def split: prod.splits option.splits)

lemma make_new_guild_slots:
  "event_ctrl (fst (make_new_guild ev self w g)) = event_ctrl self \<and>
   remove_after_slot (fst (make_new_guild ev self w g)) = remove_after_slot self \<and>
   removal_timer_handle (fst (make_new_guild ev self w g)) = removal_timer_handle self \<and>
   invite_join_count (fst (make_new_guild ev self w g)) = invite_join_count self \<and>
   messages_slot (fst (make_new_guild ev self w g)) = messages_slot self"
  by (auto simp: make_new_guild_def Let_def split: prod.splits option.splits)

lemma make_guilds_listeners:
  "listeners (snd (make_guilds ev gs s)) = listeners (snd s)"
proof (induction gs arbitrary: s)
  case Nil
  show ?case by simp
next
  case (Cons g gs)
  obtain self w where s: "s = (self, w)" by (cases s)
  show ?case
    using Cons.IH [of "make_new_guild ev self w g"] make_new_guild_listeners [of ev self w g]
    by (simp add: s)
qed

lemma make_guilds_slots:
  "event_ctrl (fst (make_guilds ev gs s)) = event_ctrl (fst s) \<and>
   remove_after_slot (fst (make_guilds ev gs s)) = remove_after_slot (fst s) \<and>
   removal_timer_handle (fst (make_guilds ev gs s)) = removal_timer_handle (fst s) \<and>
   invite_join_count (fst (make_guilds ev gs s)) = invite_join_count (fst s) \<and>
   messages_slot (fst (make_guilds ev gs s)) = messages_slot (fst s)"
proof (induction gs arbitrary: s)
  case Nil
  show ?case by simp
next
  case (Cons g gs)
  obtain self w where s: "s = (self, w)" by (cases s)
  show ?case
    using Cons.IH [of "make_new_guild ev self w g"] make_new_guild_slots [of ev self w g]
    by (simp add: s)
qed

lemma get_guilds_slots:
  "get_guilds ev self w = (r, self1) \<Longrightarrow>
     event_ctrl self1 = event_ctrl self \<and>
     remove_after_slot self1 = remove_after_slot self \<and>
     removal_timer_handle self1 = removal_timer_handle self \<and>
     invite_join_count self1 = invite_join_count self \<and>
     messages_slot self1 = messages_slot self \<and>
     parent self1 = parent self \<and> auto_join self1 = auto_join self"
  by (auto simp: get_guilds_def split: option.splits sum.splits)

lemma init_guilds_effect:
  assumes "init_guilds ev (self, w) = (None, self1, w1)"
  shows "listeners w1 = listeners w \<and> event_ctrl self1 = event_ctrl self \<and>
         remove_after_slot self1 = remove_after_slot self \<and>
         removal_timer_handle self1 = removal_timer_handle self \<and>
         invite_join_count self1 = invite_join_count self"
proof -
  obtain r self0 where g: "get_guilds ev self w = (r, self0)" by (cases "get_guilds ev self w")
  from assms g obtain gs where r: "r = Inr gs" and m: "make_guilds ev gs (self0, w) = (self1, w1)"
    by (auto simp: init_guilds_def split: sum.splits)
  show ?thesis
    using make_guilds_listeners [of ev gs "(self0, w)"] make_guilds_slots [of ev gs "(self0, w)"]
      get_guilds_slots [OF g]
    by (simp add: m)
qed

lemma init_listeners_effect:
  assumes "init_listeners (self, w) = (None, self1, w1)"
  shows "self1 = self \<and>
         listeners w1 = listeners w @
           [(discord_guild_join, on_guild_join, name_matches),
            (discord_guild_remove, on_guild_remove, no_predicate),
            (server_update, on_update, is_self)]"
  using assms
  by (auto simp: init_listeners_def add_listener_def split: option.splits sum.splits)

lemma invite_loop_effect:
  "invite_loop ks d (self, w) = (None, self1, w1) \<Longrightarrow>
     listeners w1 = listeners w @
       concat (map (\<lambda>k. [(discord_member_join, on_member_join, name_matches),
                           (discord_invite_delete, on_invite_delete, name_matches)]) ks) \<and>
     event_ctrl self1 = event_ctrl self \<and>
     remove_after_slot self1 = remove_after_slot self \<and>
     removal_timer_handle self1 = removal_timer_handle self \<and>
     auto_join self1 = auto_join self"
proof (induction ks arbitrary: self w)
  case Nil
  then show ?case by simp
next
  case (Cons k ks)
  from Cons.prems show ?case
    by (auto simp: add_listener_def Let_def split: option.splits sum.splits dest!: Cons.IH)
qed

lemma invite_loop_error:
  "invite_loop ks d (self, w) = (Some e, s1) \<Longrightarrow> e = AttributeError"
proof (induction ks arbitrary: self w)
  case Nil
  then show ?case by simp
next
  case (Cons k ks)
  from Cons.prems show ?case
    by (auto simp: add_listener_def Let_def split: option.splits sum.splits dest: Cons.IH)
qed

lemma check_name_match_patterns:
  "include_pattern self1 = include_pattern self \<Longrightarrow>
   exclude_pattern self1 = exclude_pattern self \<Longrightarrow>
   check_name_match rs self1 n = check_name_match rs self n"
  by (simp add: check_name_match_def split: option.splits)

lemma match_guilds_patterns:
  "include_pattern self1 = include_pattern self \<Longrightarrow>
   exclude_pattern self1 = exclude_pattern self \<Longrightarrow>
   match_guilds rs self1 gs = match_guilds rs self gs"
  by (induction gs) (simp_all add: check_name_match_patterns [of self1 self] split: sum.splits)

lemma get_invites_slots:
  "get_invites ev self w = (r, self1) \<Longrightarrow>
     event_ctrl self1 = event_ctrl self \<and>
     remove_after_slot self1 = remove_after_slot self \<and>
     removal_timer_handle self1 = removal_timer_handle self \<and>
     invite_join_count self1 = invite_join_count self \<and>
     messages_slot self1 = messages_slot self \<and>
     parent self1 = parent self \<and> auto_join self1 = auto_join self"
  by (auto simp: get_invites_def get_guilds_def split: option.splits sum.splits prod.splits)

lemma init_invites_effect:
  assumes "init_invites ev (self, w) = (None, self1, w1)"
  shows "event_ctrl self1 = event_ctrl self \<and>
         remove_after_slot self1 = remove_after_slot self \<and>
         removal_timer_handle self1 = removal_timer_handle self \<and>
         auto_join self1 = auto_join self \<and>
         (invite_join_count self = [] \<longrightarrow> listeners w1 = listeners w) \<and>
         (\<forall>invs. fst (get_invites ev self w) = Inr invs \<longrightarrow>
            listeners w1 = listeners w @
              concat (map (\<lambda>k. [(discord_member_join, on_member_join, name_matches),
                                  (discord_invite_delete, on_invite_delete, name_matches)])
                        (map fst (invite_join_count self))))"
proof (cases "invite_join_count self = []")
  case True
  with assms show ?thesis by (simp add: init_invites_def)
next
  case False
  obtain r self0 where g: "get_invites ev self w = (r, self0)" by (cases "get_invites ev self w")
  note sl = get_invites_slots [OF g]
  show ?thesis
  proof (cases r)
    case (Inl e)
    with assms False g sl show ?thesis
      by (auto simp: init_invites_def split: if_splits)
  next
    case (Inr invs)
    obtain r2 s2 where l: "invite_loop (map fst (invite_join_count self0)) (invites_dict invs) (self0, w) = (r2, s2)"
      by (cases "invite_loop (map fst (invite_join_count self0)) (invites_dict invs) (self0, w)")
    show ?thesis
    proof (cases r2)
      case None
      with assms False g Inr l have s2: "s2 = (self1, w1)"
        by (simp add: init_invites_def)
      from invite_loop_effect [OF l [unfolded None s2]] sl False g Inr
      show ?thesis by simp
    next
      case (Some e)
      with invite_loop_error [OF l [unfolded Some]] assms False g Inr l show ?thesis
        by (simp add: init_invites_def)
    qed
  qed
qed

lemma run_steps_step:
  "run_steps (f # fs) s = (None, s2) \<Longrightarrow> \<exists>s1. f s = (None, s1) \<and> run_steps fs s1 = (None, s2)"
  by (auto split: prod.splits option.splits)

lemma init_auto_join_effect:
  "init_auto_join (self, w) = (None, self1, w1) \<Longrightarrow>
     w1 = w \<and> event_ctrl self1 = event_ctrl self \<and> parent self1 = parent self \<and>
     auto_join self1 = auto_join self \<and> include_pattern self1 = include_pattern self \<and>
     exclude_pattern self1 = exclude_pattern self \<and>
     invite_join_count self1 = invite_join_count self \<and>
     remove_after_slot self1 = remove_after_slot self \<and>
     removal_timer_handle self1 = removal_timer_handle self"
  by (auto simp: init_auto_join_def split: option.splits)

lemma init_remove_after_effect:
  "init_remove_after (self, w) = (None, self1, w1) \<Longrightarrow>
     listeners w1 = listeners w \<and> client_guilds w1 = client_guilds w \<and>
     event_ctrl self1 = event_ctrl self \<and> parent self1 = parent self \<and>
     auto_join self1 = auto_join self \<and> include_pattern self1 = include_pattern self \<and>
     exclude_pattern self1 = exclude_pattern self \<and>
     invite_join_count self1 = invite_join_count self \<and>
     (case remove_after_slot self of
        None \<Rightarrow> remove_after_slot self1 = None \<and>
                removal_timer_handle self1 = removal_timer_handle self
      | Some (Timedelta d) \<Rightarrow>
          remove_after_slot self1 = Some (Datetime (now w + d)) \<and>
          removal_timer_handle self1 =
            Some \<lparr> fire_when = Datetime (now w + d), fire_event = server_removed,
                   cancelled = False \<rparr>
      | Some (Datetime t) \<Rightarrow>
          remove_after_slot self1 = Some (Datetime (now w)) \<and>
          removal_timer_handle self1 =
            Some \<lparr> fire_when = Datetime (now w), fire_event = server_removed,
                   cancelled = False \<rparr>)"
  by (auto simp: init_remove_after_def call_at_def Let_def split: option.splits timespec.splits)

lemma init_join_timer_effect:
  "init_join_timer (self, w) = (None, self1, w1) \<Longrightarrow>
     event_ctrl self1 = event_ctrl self \<and>
     remove_after_slot self1 = remove_after_slot self \<and>
     removal_timer_handle self1 = removal_timer_handle self \<and>
     listeners w1 = listeners w @
       (case auto_join self of
          None \<Rightarrow> []
        | Some d \<Rightarrow> [(auto_guild_start_join, join_guilds, is_self)])"
  by (auto simp: init_join_timer_def reset_auto_join_timer_def call_at_def add_listener_def
      split: option.splits sum.splits)

lemma init_invites_extends:
  assumes "init_invites ev (self, w) = (None, self1, w1)"
  shows "\<exists>regs. listeners w1 = listeners w @ regs"
proof (cases "invite_join_count self = []")
  case True
  with assms show ?thesis by (simp add: init_invites_def)
next
  case False
  obtain r self0 where g: "get_invites ev self w = (r, self0)" by (cases "get_invites ev self w")
  show ?thesis
  proof (cases r)
    case (Inl e)
    with assms False g show ?thesis
      by (auto simp: init_invites_def split: if_splits)
  next
    case (Inr invs)
    obtain r2 s2 where l: "invite_loop (map fst (invite_join_count self0)) (invites_dict invs) (self0, w) = (r2, s2)"
      by (cases "invite_loop (map fst (invite_join_count self0)) (invites_dict invs) (self0, w)")
    show ?thesis
    proof (cases r2)
      case None
      with assms False g Inr l have s2: "s2 = (self1, w1)"
        by (simp add: init_invites_def)
      from invite_loop_effect [OF l [unfolded None s2]]
      show ?thesis by simp
    next
      case (Some e)
      with invite_loop_error [OF l [unfolded Some]] assms False g Inr l show ?thesis
        by (simp add: init_invites_def)
    qed
  qed
qed

lemma get_invites_query:
  assumes "parent self2 = Some p"
      and "include_pattern self2 = include_pattern self"
      and "exclude_pattern self2 = exclude_pattern self"
      and "client_guilds w2 = client_guilds w"
      and "match_guilds (re_search_fn ev) self (client_guilds w) = Inr gs"
      and "collect_invites gs = Inr invs"
  shows "fst (get_invites ev self2 w2) = Inr invs"
  using assms match_guilds_patterns [of self2 self "re_search_fn ev" "client_guilds w"]
  by (simp add: get_invites_def get_guilds_def)

lemma initialize_success:
  assumes "initialize ev self w par ctrl = (None, self', w')"
  shows "\<exists>regs.
           listeners w' = listeners w @ regs @
              (case auto_join self of
                 None \<Rightarrow> []
               | Some d \<Rightarrow> [(auto_guild_start_join, join_guilds, is_self)]) @
              [(discord_guild_join, on_guild_join, name_matches),
               (discord_guild_remove, on_guild_remove, no_predicate),
               (server_update, on_update, is_self)] \<and>
           (invite_join_count self = [] \<longrightarrow> regs = []) \<and>
           (\<forall>gs invs. match_guilds (re_search_fn ev) self (client_guilds w) = Inr gs \<and>
                collect_invites gs = Inr invs \<longrightarrow>
              regs = concat (map (\<lambda>k. [(discord_member_join, on_member_join, name_matches),
                                        (discord_invite_delete, on_invite_delete, name_matches)])
                              (map fst (invite_join_count self)))) \<and>
           event_ctrl self' = ctrl \<and>
           (case remove_after_slot self of
              None \<Rightarrow> remove_after_slot self' = None \<and>
                      removal_timer_handle self' = removal_timer_handle self
            | Some (Timedelta d) \<Rightarrow>
                remove_after_slot self' = Some (Datetime (now w + d)) \<and>
                removal_timer_handle self' =
                  Some \<lparr> fire_when = Datetime (now w + d), fire_event = server_removed,
                         cancelled = False \<rparr>
            | Some (Datetime t) \<Rightarrow>
                remove_after_slot self' = Some (Datetime (now w)) \<and>
                removal_timer_handle self' =
                  Some \<lparr> fire_when = Datetime (now w), fire_event = server_removed,
                         cancelled = False \<rparr>)"
proof -
  from assms obtain p where par: "par = Some p"
    by (cases par) (simp_all add: initialize_def)
  define self0 where "self0 = self\<lparr>event_ctrl := ctrl, parent := par\<rparr>"
  from assms par have run:
    "run_steps [init_auto_join, init_remove_after, init_invites ev, init_join_timer,
                init_listeners, init_guilds ev] (self0, w) = (None, self', w')"
    by (simp add: initialize_def self0_def)
  from run_steps_step [OF run] obtain a1 w1 where
    s1: "init_auto_join (self0, w) = (None, a1, w1)" and
    r1: "run_steps [init_remove_after, init_invites ev, init_join_timer,
                    init_listeners, init_guilds ev] (a1, w1) = (None, self', w')"
    by auto
  from run_steps_step [OF r1] obtain a2 w2 where
    s2: "init_remove_after (a1, w1) = (None, a2, w2)" and
    r2: "run_steps [init_invites ev, init_join_timer, init_listeners, init_guilds ev] (a2, w2)
           = (None, self', w')"
    by auto
  from run_steps_step [OF r2] obtain a3 w3 where
    s3: "init_invites ev (a2, w2) = (None, a3, w3)" and
    r3: "run_steps [init_join_timer, init_listeners, init_guilds ev] (a3, w3) = (None, self', w')"
    by auto
  from run_steps_step [OF r3] obtain a4 w4 where
    s4: "init_join_timer (a3, w3) = (None, a4, w4)" and
    r4: "run_steps [init_listeners, init_guilds ev] (a4, w4) = (None, self', w')"
    by auto
  from run_steps_step [OF r4] obtain a5 w5 where
    s5: "init_listeners (a4, w4) = (None, a5, w5)" and
    r5: "run_steps [init_guilds ev] (a5, w5) = (None, self', w')"
    by auto
  from run_steps_step [OF r5] have s6: "init_guilds ev (a5, w5) = (None, self', w')"
    by auto
  note e1 = init_auto_join_effect [OF s1]
  note e2 = init_remove_after_effect [OF s2]
  note e3 = init_invites_effect [OF s3]
  note e4 = init_join_timer_effect [OF s4]
  note e5 = init_listeners_effect [OF s5]
  note e6 = init_guilds_effect [OF s6]
  have q: "fst (get_invites ev a2 w2) = Inr invs"
    if "match_guilds (re_search_fn ev) self (client_guilds w) = Inr gs"
      and "collect_invites gs = Inr invs" for gs invs
    using get_invites_query [where ?self2.0 = a2 and p = p and self = self and ev = ev and ?w2.0 = w2
        and w = w and gs = gs and invs = invs] that e1 e2 par
    by (simp add: self0_def)
  have l3: "invite_join_count a2 = invite_join_count self" "auto_join a3 = auto_join self"
    using e1 e2 e3 by (simp_all add: self0_def)
  have ra: "remove_after_slot self' = remove_after_slot a2"
    "removal_timer_handle self' = removal_timer_handle a2" "event_ctrl self' = ctrl"
    using e1 e2 e3 e4 e5 e6 by (simp_all add: self0_def)
  from init_invites_extends [OF s3] obtain regs where regs: "listeners w3 = listeners w2 @ regs"
    by auto
  have ls: "listeners w' = listeners w @ regs @
              (case auto_join self of
                 None \<Rightarrow> []
               | Some d \<Rightarrow> [(auto_guild_start_join, join_guilds, is_self)]) @
              [(discord_guild_join, on_guild_join, name_matches),
               (discord_guild_remove, on_guild_remove, no_predicate),
               (server_update, on_update, is_self)]"
    using e1 e2 e4 e5 e6 regs l3 by simp
  have r0: "regs = []" if "invite_join_count self = []"
    using e3 regs l3 that by simp
  have r1: "regs = concat (map (\<lambda>k. [(discord_member_join, on_member_join, name_matches),
                                        (discord_invite_delete, on_invite_delete, name_matches)])
                              (map fst (invite_join_count self)))"
    if "match_guilds (re_search_fn ev) self (client_guilds w) = Inr gs"
      and "collect_invites gs = Inr invs" for gs invs
    using e3 regs l3 q [OF that] by simp
  have c: "(case remove_after_slot self of
              None \<Rightarrow> remove_after_slot self' = None \<and>
                      removal_timer_handle self' = removal_timer_handle self
            | Some (Timedelta d) \<Rightarrow>
                remove_after_slot self' = Some (Datetime (now w + d)) \<and>
                removal_timer_handle self' =
                  Some \<lparr> fire_when = Datetime (now w + d), fire_event = server_removed,
                         cancelled = False \<rparr>
            | Some (Datetime t) \<Rightarrow>
                remove_after_slot self' = Some (Datetime (now w)) \<and>
                removal_timer_handle self' =
                  Some \<lparr> fire_when = Datetime (now w), fire_event = server_removed,
                         cancelled = False \<rparr>)"
    using e1 e2 ra by (auto simp: self0_def split: option.splits timespec.splits)
  show ?thesis
    using ls r0 r1 ra(3) c by blast
qed

lemma registrations_append:
  "registrations (w\<lparr>listeners := xs @ ys\<rparr>) ev cb =
     registrations (w\<lparr>listeners := xs\<rparr>) ev cb + registrations (w\<lparr>listeners := ys\<rparr>) ev cb"
  by (simp add: registrations_def)

lemma count_pairs:
  "length (filter (\<lambda>(e, c, p). e = ev \<and> c = cb)
     (concat (map (\<lambda>k. [(discord_member_join, on_member_join, name_matches),
                         (discord_invite_delete, on_invite_delete, name_matches)]) ks))) =
   (if (ev = discord_member_join \<and> cb = on_member_join) \<or>
       (ev = discord_invite_delete \<and> cb = on_invite_delete) then length ks else 0)"
  by (induction ks) auto

lemma emit_invokes_count:
  "count_list (emit_invokes w ev True) cb = registrations w ev cb"
proof -
  have "count_list (map (\<lambda>(e, c, p). c) (filter (\<lambda>(e, c, p). e = ev) ls)) cb =
        length (filter (\<lambda>(e, c, p). e = ev \<and> c = cb) ls)" for ls :: "(EventID \<times> callback \<times> predicate) list"
    by (induction ls) auto
  then show ?thesis by (simp add: emit_invokes_def registrations_def)
qed

section \<open>Listener registration in \<open>initialize\<close>\<close>

text \<open>
  C10.  When \<open>initialize\<close> succeeds for an AutoGUILD that tracks N invite ids and
  the invite query succeeds, \<open>_on_member_join\<close> and \<open>_on_invite_delete\<close> are each
  registered once per iteration of the loop over the tracked ids, N times in all,
  and not once per instance; with no tracked invite neither is registered.  A
  matching member-join event therefore invokes \<open>_on_member_join\<close> N times more
  than before.
\<close>

theorem initialize_registers_per_invite:
  assumes "initialize ev self w par ctrl = (None, self', w')"
  shows "(invite_join_count self = [] \<longrightarrow>
            registrations w' discord_member_join on_member_join =
              registrations w discord_member_join on_member_join \<and>
            registrations w' discord_invite_delete on_invite_delete =
              registrations w discord_invite_delete on_invite_delete) \<and>
         (\<forall>gs invs. match_guilds (re_search_fn ev) self (client_guilds w) = Inr gs \<and>
              collect_invites gs = Inr invs \<longrightarrow>
            registrations w' discord_member_join on_member_join =
              registrations w discord_member_join on_member_join + length (invite_join_count self) \<and>
            registrations w' discord_invite_delete on_invite_delete =
              registrations w discord_invite_delete on_invite_delete + length (invite_join_count self) \<and>
            count_list (emit_invokes w' discord_member_join True) on_member_join =
              count_list (emit_invokes w discord_member_join True) on_member_join +
              length (invite_join_count self))"
proof -
  from initialize_success [OF assms] obtain regs where
    ls: "listeners w' = listeners w @ regs @
              (case auto_join self of
                 None \<Rightarrow> []
               | Some d \<Rightarrow> [(auto_guild_start_join, join_guilds, is_self)]) @
              [(discord_guild_join, on_guild_join, name_matches),
               (discord_guild_remove, on_guild_remove, no_predicate),
               (server_update, on_update, is_self)]"
    and r0: "invite_join_count self = [] \<longrightarrow> regs = []"
    and r1: "\<forall>gs invs. match_guilds (re_search_fn ev) self (client_guilds w) = Inr gs \<and>
                collect_invites gs = Inr invs \<longrightarrow>
              regs = concat (map (\<lambda>k. [(discord_member_join, on_member_join, name_matches),
                                        (discord_invite_delete, on_invite_delete, name_matches)])
                              (map fst (invite_join_count self)))"
    by blast
  have tail: "length (filter (\<lambda>(e, c, p). e = ev' \<and> c = cb)
       ((case auto_join self of
                 None \<Rightarrow> []
               | Some d \<Rightarrow> [(auto_guild_start_join, join_guilds, is_self)]) @
              [(discord_guild_join, on_guild_join, name_matches),
               (discord_guild_remove, on_guild_remove, no_predicate),
               (server_update, on_update, is_self)])) = 0"
    if "(ev' = discord_member_join \<and> cb = on_member_join) \<or>
        (ev' = discord_invite_delete \<and> cb = on_invite_delete)" for ev' cb
    using that by (auto split: option.splits)
  have reg: "registrations w' ev' cb = registrations w ev' cb +
      length (filter (\<lambda>(e, c, p). e = ev' \<and> c = cb) regs)"
    if "(ev' = discord_member_join \<and> cb = on_member_join) \<or>
        (ev' = discord_invite_delete \<and> cb = on_invite_delete)" for ev' cb
    using tail [OF that] by (simp add: registrations_def ls)
  show ?thesis
    using r0 r1 reg [of discord_member_join on_member_join]
      reg [of discord_invite_delete on_invite_delete]
      count_pairs [of discord_member_join on_member_join "map fst (invite_join_count self)"]
      count_pairs [of discord_invite_delete on_invite_delete "map fst (invite_join_count self)"]
    by (auto simp: emit_invokes_count)
qed

theorem initialize_registers_per_invite_witness:
  "fst (initialize plain_env (init id tracking_args) (world_at 1000 (invite_guilds 3 7)) (Some 0) (Some 0)) = None \<and>
   length (invite_join_count (init id tracking_args)) = 2 \<and>
   registrations (snd (snd (initialize plain_env (init id tracking_args) (world_at 1000 (invite_guilds 3 7)) (Some 0) (Some 0))))
      discord_member_join on_member_join = 2 \<and>
   count_list (emit_invokes (snd (snd (initialize plain_env (init id tracking_args) (world_at 1000 (invite_guilds 3 7)) (Some 0) (Some 0))))
      discord_member_join True) on_member_join = 2"
proof -
  let ?X = "initialize plain_env (init id tracking_args) (world_at 1000 (invite_guilds 3 7)) (Some 0) (Some 0)"
  have f: "fst ?X = None" by code_simp
  then have h: "?X = (None, fst (snd ?X), snd (snd ?X))"
    by (metis prod.collapse)
  have m: "match_guilds (re_search_fn plain_env) (init id tracking_args)
             (client_guilds (world_at 1000 (invite_guilds 3 7))) = Inr [hd (invite_guilds 3 7)]"
    by code_simp
  have c: "collect_invites [hd (invite_guilds 3 7)] =
             Inr [\<lparr>invite_id = ''abc'', uses = 3\<rparr>, \<lparr>invite_id = ''xyz'', uses = 7\<rparr>]"
    by code_simp
  have n: "length (invite_join_count (init id tracking_args)) = 2" by code_simp
  have z: "registrations (world_at 1000 (invite_guilds 3 7)) discord_member_join on_member_join = 0"
    "count_list (emit_invokes (world_at 1000 (invite_guilds 3 7)) discord_member_join True) on_member_join = 0"
    by code_simp+
  from initialize_registers_per_invite [OF h] m c n z f show ?thesis
    by simp
qed


section \<open>The removal deadline\<close>

text \<open>
  C6.  What \<open>initialize\<close> does with \<open>remove_after\<close> given as an absolute datetime:
  after a successful initialization the stored deadline is the time of the
  initialization, whatever the datetime was, and the removal timer emits
  \<open>server_removed\<close> at that time.  (The timedelta and \<open>None\<close> cases are in
  \<open>initialize_success\<close>: initialization time plus the delta, and no timer.)
\<close>

theorem initialize_datetime_deadline:
  assumes "initialize ev self w par ctrl = (None, self', w')"
      and "remove_after_slot self = Some (Datetime t)"
  shows "remove_after self' = Some (Datetime (now w)) \<and>
         removal_timer_handle self' =
           Some \<lparr> fire_when = Datetime (now w), fire_event = server_removed, cancelled = False \<rparr>"
  using initialize_success [OF assms(1)] assms(2)
  by (auto simp: remove_after_def)

theorem initialize_datetime_deadline_witness:
  "fst (initialize plain_env
          (init id ((plain_args ''shill'' None)\<lparr>a_remove_after := Some (Datetime 2000)\<rparr>))
          (world_at 1000 two_guilds) (Some 0) (Some 0)) = None \<and>
   remove_after (fst (running ((plain_args ''shill'' None)\<lparr>a_remove_after := Some (Datetime 2000)\<rparr>)))
     = Some (Datetime 1000) \<and>
   removal_timer_handle (fst (running ((plain_args ''shill'' None)\<lparr>a_remove_after := Some (Datetime 2000)\<rparr>)))
     = Some \<lparr> fire_when = Datetime 1000, fire_event = server_removed, cancelled = False \<rparr>"
proof -
  let ?a = "(plain_args ''shill'' None)\<lparr>a_remove_after := Some (Datetime 2000)\<rparr>"
  let ?X = "initialize plain_env (init id ?a) (world_at 1000 two_guilds) (Some 0) (Some 0)"
  have f: "fst ?X = None" by code_simp
  then have h: "?X = (None, fst (running ?a), snd (running ?a))"
    by (metis prod.collapse running_def)
  have r: "remove_after_slot (init id ?a) = Some (Datetime 2000)"
    by (simp add: init_def plain_args_def)
  have n: "now (world_at 1000 two_guilds) = 1000" by (simp add: world_at_def)
  from initialize_datetime_deadline [OF h r] f n show ?thesis by simp
qed

section \<open>Closing\<close>

text \<open>
  C8.  What \<open>_close\<close> does with the EventController reference of an initialized
  AutoGUILD: it is the same reference afterwards and not \<open>None\<close>, so a second
  \<open>_close\<close> does not return early; it runs the body again and closes every generated
  guild a second time.
\<close>

theorem close_keeps_event_ctrl:
  assumes "event_ctrl self = Some c"
  shows "(case close self w of (self1, w1) \<Rightarrow>
            event_ctrl self1 = Some c \<and>
            gen_guilds self1 = map GUILD_close (gen_guilds self) \<and>
            (case close self1 w1 of (self2, w2) \<Rightarrow>
               event_ctrl self2 = Some c \<and>
               gen_guilds self2 = map GUILD_close (map GUILD_close (gen_guilds self))))"
  using assms by (simp add: close_def Let_def split: option.splits)

theorem close_keeps_event_ctrl_witness:
  "(case running (plain_args ''shill'' None) of (self, w) \<Rightarrow>
      (case close self w of (self1, w1) \<Rightarrow>
         (case close self1 w1 of (self2, w2) \<Rightarrow>
            event_ctrl self = Some 0 \<and> event_ctrl self1 = Some 0 \<and>
            event_ctrl self2 = Some 0 \<and>
            map g_closed (gen_guilds self) = [0] \<and>
            map g_closed (gen_guilds self1) = [1] \<and>
            map g_closed (gen_guilds self2) = [2])))"
proof -
  let ?s = "running (plain_args ''shill'' None)"
  have e: "event_ctrl (fst ?s) = Some 0" by code_simp
  have g: "map g_closed (gen_guilds (fst ?s)) = [0]" by code_simp
  from close_keeps_event_ctrl [OF e, of "snd ?s"] e g show ?thesis
    by (auto simp: GUILD_close_def split: prod.splits)
qed

section \<open>Updating\<close>

lemma close_keeps_parameters:
  "close self w = (self1, w1) \<Longrightarrow>
     include_pattern self1 = include_pattern self \<and>
     exclude_pattern self1 = exclude_pattern self \<and>
     remove_after_slot self1 = remove_after_slot self \<and>
     messages_slot self1 = messages_slot self \<and>
     logging self1 = logging self \<and>
     invite_join_count self1 = invite_join_count self \<and>
     removal_buffer_length self1 = removal_buffer_length self \<and>
     parent self1 = parent self \<and> event_ctrl self1 = event_ctrl self"
  by (auto simp: close_def Let_def split: option.splits)

lemma update_try_failure:
  "update_try re_sub ev self w io kw = (Some e, self2, w2) \<Longrightarrow> self2 = self"
  by (auto simp: update_try_def update_obj_param_def invite_track_def Let_def
      split: option.splits sum.splits prod.splits)

lemma make_new_guild_gen:
  "gen_guilds (fst (make_new_guild ev self w g)) =
     gen_guilds self @
       (if guild_initialize ev g = None
        then [\<lparr> apiobject = g, g_messages = fst (deepcopy_list (messages_slot self) w),
                g_logging = logging self, g_removal_buffer_length = 0, g_closed = 0 \<rparr>]
        else [])"
  by (auto simp: make_new_guild_def Let_def case_prod_beta split: option.splits)

lemma make_guilds_gen:
  "\<exists>new. gen_guilds (fst (make_guilds ev gs s)) = gen_guilds (fst s) @ new \<and>
         map apiobject new = filter (\<lambda>g. guild_initialize ev g = None) gs \<and>
         (\<forall>g \<in> set new. g_closed g = 0)"
proof (induction gs arbitrary: s)
  case Nil
  show ?case by simp
next
  case (Cons g gs)
  obtain self w where s: "s = (self, w)" by (cases s)
  let ?s1 = "make_new_guild ev self w g"
  from Cons.IH [of ?s1] obtain new where
    n: "gen_guilds (fst (make_guilds ev gs ?s1)) = gen_guilds (fst ?s1) @ new"
    and a: "map apiobject new = filter (\<lambda>g. guild_initialize ev g = None) gs"
    and c: "\<forall>g \<in> set new. g_closed g = 0"
    by blast
  show ?case
  proof (cases "guild_initialize ev g = None")
    case True
    let ?n = "\<lparr> apiobject = g, g_messages = fst (deepcopy_list (messages_slot self) w),
                g_logging = logging self, g_removal_buffer_length = 0, g_closed = 0 \<rparr>"
    have "gen_guilds (fst (make_guilds ev (g # gs) s)) = gen_guilds (fst s) @ (?n # new)"
      using n True by (simp add: s make_new_guild_gen)
    moreover have "map apiobject (?n # new) = filter (\<lambda>g. guild_initialize ev g = None) (g # gs)"
      using a True by simp
    moreover have "\<forall>g \<in> set (?n # new). g_closed g = 0" using c by simp
    ultimately show ?thesis by blast
  next
    case False
    have "gen_guilds (fst (make_guilds ev (g # gs) s)) = gen_guilds (fst s) @ new"
      using n False by (simp add: s make_new_guild_gen)
    moreover have "map apiobject new = filter (\<lambda>g. guild_initialize ev g = None) (g # gs)"
      using a False by simp
    ultimately show ?thesis using c by blast
  qed
qed


lemma invite_loop_gen:
  "invite_loop ks d (self, w) = (r, self1, w1) \<Longrightarrow>
     gen_guilds self1 = gen_guilds self \<and> client_guilds w1 = client_guilds w \<and>
     include_pattern self1 = include_pattern self \<and>
     exclude_pattern self1 = exclude_pattern self \<and> parent self1 = parent self"
proof (induction ks arbitrary: self w)
  case Nil
  then show ?case by simp
next
  case (Cons k ks)
  from Cons.prems show ?case
    by (auto simp: add_listener_def Let_def split: option.splits sum.splits dest!: Cons.IH)
qed

lemma get_invites_gen:
  "get_invites ev self w = (r, self1) \<Longrightarrow>
     gen_guilds self1 = gen_guilds self \<and>
     include_pattern self1 = include_pattern self \<and>
     exclude_pattern self1 = exclude_pattern self"
  by (auto simp: get_invites_def get_guilds_def split: option.splits sum.splits prod.splits)

lemma init_invites_gen:
  assumes "init_invites ev (self, w) = (r, self1, w1)"
  shows "gen_guilds self1 = gen_guilds self \<and> client_guilds w1 = client_guilds w \<and>
         include_pattern self1 = include_pattern self \<and>
         exclude_pattern self1 = exclude_pattern self \<and> parent self1 = parent self"
proof (cases "invite_join_count self = []")
  case True
  with assms show ?thesis by (simp add: init_invites_def)
next
  case False
  obtain q self0 where g: "get_invites ev self w = (q, self0)" by (cases "get_invites ev self w")
  note sl = get_invites_slots [OF g] get_invites_gen [OF g]
  show ?thesis
  proof (cases q)
    case (Inl e)
    with assms False g sl show ?thesis
      by (auto simp: init_invites_def split: if_splits)
  next
    case (Inr invs)
    obtain r2 a2 w2 where l: "invite_loop (map fst (invite_join_count self0)) (invites_dict invs) (self0, w) = (r2, a2, w2)"
      by (cases "invite_loop (map fst (invite_join_count self0)) (invites_dict invs) (self0, w)") auto
    from assms False g Inr l have "self1 = a2 \<and> w1 = w2"
      by (auto simp: init_invites_def split: option.splits if_splits)
    with invite_loop_gen [OF l] sl show ?thesis by simp
  qed
qed

lemma early_blocks_gen:
  "init_auto_join (self, w) = (r, self1, w1) \<Longrightarrow>
     gen_guilds self1 = gen_guilds self \<and> client_guilds w1 = client_guilds w \<and>
     include_pattern self1 = include_pattern self \<and>
     exclude_pattern self1 = exclude_pattern self \<and> parent self1 = parent self"
  "init_remove_after (self, w) = (r, self1, w1) \<Longrightarrow>
     gen_guilds self1 = gen_guilds self \<and> client_guilds w1 = client_guilds w \<and>
     include_pattern self1 = include_pattern self \<and>
     exclude_pattern self1 = exclude_pattern self \<and> parent self1 = parent self"
  "init_join_timer (self, w) = (r, self1, w1) \<Longrightarrow>
     gen_guilds self1 = gen_guilds self \<and> client_guilds w1 = client_guilds w \<and>
     include_pattern self1 = include_pattern self \<and>
     exclude_pattern self1 = exclude_pattern self \<and> parent self1 = parent self"
  "init_listeners (self, w) = (r, self1, w1) \<Longrightarrow>
     gen_guilds self1 = gen_guilds self \<and> client_guilds w1 = client_guilds w \<and>
     include_pattern self1 = include_pattern self \<and>
     exclude_pattern self1 = exclude_pattern self \<and> parent self1 = parent self"
  by (auto simp: init_auto_join_def init_remove_after_def init_join_timer_def init_listeners_def
      reset_auto_join_timer_def call_at_def add_listener_def Let_def
      split: option.splits sum.splits timespec.splits)

lemma initialize_gen_guilds:
  assumes "initialize ev self w par ctrl = (None, self', w')"
  shows "\<exists>new. gen_guilds self' = gen_guilds self @ new \<and>
           (\<forall>g \<in> set new. g_closed g = 0) \<and>
           (\<forall>gs. match_guilds (re_search_fn ev) self (client_guilds w) = Inr gs \<longrightarrow>
              map apiobject new = filter (\<lambda>g. guild_initialize ev g = None) gs)"
proof -
  from assms obtain p where par: "par = Some p"
    by (cases par) (simp_all add: initialize_def)
  define self0 where "self0 = self\<lparr>event_ctrl := ctrl, parent := par\<rparr>"
  from assms par have run:
    "run_steps [init_auto_join, init_remove_after, init_invites ev, init_join_timer,
                init_listeners, init_guilds ev] (self0, w) = (None, self', w')"
    by (simp add: initialize_def self0_def)
  from run_steps_step [OF run] obtain a1 w1 where
    s1: "init_auto_join (self0, w) = (None, a1, w1)" and
    r1: "run_steps [init_remove_after, init_invites ev, init_join_timer,
                    init_listeners, init_guilds ev] (a1, w1) = (None, self', w')"
    by auto
  from run_steps_step [OF r1] obtain a2 w2 where
    s2: "init_remove_after (a1, w1) = (None, a2, w2)" and
    r2: "run_steps [init_invites ev, init_join_timer, init_listeners, init_guilds ev] (a2, w2)
           = (None, self', w')"
    by auto
  from run_steps_step [OF r2] obtain a3 w3 where
    s3: "init_invites ev (a2, w2) = (None, a3, w3)" and
    r3: "run_steps [init_join_timer, init_listeners, init_guilds ev] (a3, w3) = (None, self', w')"
    by auto
  from run_steps_step [OF r3] obtain a4 w4 where
    s4: "init_join_timer (a3, w3) = (None, a4, w4)" and
    r4: "run_steps [init_listeners, init_guilds ev] (a4, w4) = (None, self', w')"
    by auto
  from run_steps_step [OF r4] obtain a5 w5 where
    s5: "init_listeners (a4, w4) = (None, a5, w5)" and
    r5: "run_steps [init_guilds ev] (a5, w5) = (None, self', w')"
    by auto
  from run_steps_step [OF r5] have s6: "init_guilds ev (a5, w5) = (None, self', w')"
    by auto
  have a5: "gen_guilds a5 = gen_guilds self" "client_guilds w5 = client_guilds w"
    "include_pattern a5 = include_pattern self" "exclude_pattern a5 = exclude_pattern self"
    "parent a5 = Some p"
    using early_blocks_gen(1) [OF s1] early_blocks_gen(2) [OF s2] init_invites_gen [OF s3]
      early_blocks_gen(3) [OF s4] early_blocks_gen(4) [OF s5] par
    by (simp_all add: self0_def)
  obtain q a6 where g: "get_guilds ev a5 w5 = (q, a6)" by (cases "get_guilds ev a5 w5")
  from s6 g obtain ms where q: "q = Inr ms" and m: "make_guilds ev ms (a6, w5) = (self', w')"
    by (auto simp: init_guilds_def split: sum.splits)
  from g q a5 have ms: "match_guilds (re_search_fn ev) self (client_guilds w) = Inr ms"
    and a6: "gen_guilds a6 = gen_guilds self"
    using match_guilds_patterns [of a5 self "re_search_fn ev" "client_guilds w"]
    by (auto simp: get_guilds_def split: sum.splits)
  from make_guilds_gen [of ev ms "(a6, w5)"] m a6 obtain new where
    "gen_guilds self' = gen_guilds self @ new"
    "map apiobject new = filter (\<lambda>g. guild_initialize ev g = None) ms"
    "\<forall>g \<in> set new. g_closed g = 0"
    by auto
  with ms show ?thesis by auto
qed

text \<open>
  C2.  What a failed update leaves behind.  When the body of the \<open>try\<close> in
  \<open>_on_update\<close> raises, the exception propagates and \<open>initialize\<close> is run again on
  the closed object.  For an initialized AutoGUILD with a removal deadline that second
  \<open>initialize\<close>, when it succeeds, replaces the deadline by the time of the failed
  update and arms the removal timer for that time, so \<open>server_removed\<close> is emitted
  at once; and the generated guilds that \<open>_close\<close> has closed stay in the list, each
  matching guild getting a second, new manager behind them.
\<close>

theorem on_update_rollback_resets_deadline:
  assumes "event_ctrl self = Some c"
      and "remove_after_slot self = Some (Datetime t)"
      and "close self w = (self1, w1)"
      and "update_try re_sub ev self1 w1 io kw = (Some e, self2, w2)"
      and "initialize ev self2 w2 (parent self2) (event_ctrl self2) = (None, self3, w3)"
  shows "on_update_handler re_sub ev self w io kw = (Some e, self3, w3) \<and>
         remove_after self3 = Some (Datetime (now w2)) \<and>
         removal_timer_handle self3 =
           Some \<lparr> fire_when = Datetime (now w2), fire_event = server_removed, cancelled = False \<rparr> \<and>
         (\<exists>new. gen_guilds self3 = map GUILD_close (gen_guilds self) @ new \<and>
            (\<forall>g \<in> set new. g_closed g = 0) \<and>
            (\<forall>gs. match_guilds (re_search_fn ev) self (client_guilds w2) = Inr gs \<longrightarrow>
               map apiobject new = filter (\<lambda>g. guild_initialize ev g = None) gs))"
proof -
  have eq: "self2 = self1" using update_try_failure [OF assms(4)] .
  have cl: "gen_guilds self1 = map GUILD_close (gen_guilds self)"
    using assms(1) assms(3) by (auto simp: close_def Let_def split: option.splits)
  note kp = close_keeps_parameters [OF assms(3)]
  have ra: "remove_after_slot self2 = Some (Datetime t)" using kp eq assms(2) by simp
  have h: "on_update_handler re_sub ev self w io kw = (Some e, self3, w3)"
    using assms(3,4,5) by (simp add: on_update_handler_def)
  have d: "remove_after self3 = Some (Datetime (now w2)) \<and>
         removal_timer_handle self3 =
           Some \<lparr> fire_when = Datetime (now w2), fire_event = server_removed, cancelled = False \<rparr>"
    using initialize_success [OF assms(5)] ra by (auto simp: remove_after_def)
  have m: "match_guilds (re_search_fn ev) self2 gs = match_guilds (re_search_fn ev) self gs" for gs
    using match_guilds_patterns [of self2 self "re_search_fn ev" gs] kp eq by simp
  from initialize_gen_guilds [OF assms(5)] obtain new where
    "gen_guilds self3 = gen_guilds self2 @ new" "\<forall>g \<in> set new. g_closed g = 0"
    "\<forall>gs. match_guilds (re_search_fn ev) self2 (client_guilds w2) = Inr gs \<longrightarrow>
              map apiobject new = filter (\<lambda>g. guild_initialize ev g = None) gs"
    by blast
  then have g: "\<exists>new. gen_guilds self3 = map GUILD_close (gen_guilds self) @ new \<and>
            (\<forall>g \<in> set new. g_closed g = 0) \<and>
            (\<forall>gs. match_guilds (re_search_fn ev) self (client_guilds w2) = Inr gs \<longrightarrow>
               map apiobject new = filter (\<lambda>g. guild_initialize ev g = None) gs)"
    using eq cl m by auto
  show ?thesis using h d g by blast
qed

theorem on_update_rollback_resets_deadline_witness:
  "(case running ((plain_args ''shill'' None)\<lparr>a_remove_after := Some (Timedelta 3600)\<rparr>) of
      (self, w) \<Rightarrow>
        remove_after self = Some (Datetime 4600) \<and>
        map (\<lambda>g. (dg_name (apiobject g), g_closed g)) (gen_guilds self) = [(Some ''shill-chat'', 0)] \<and>
        (case on_update_handler id plain_env self (w\<lparr>now := 2000\<rparr>) None
                (no_kwargs\<lparr>k_include_pattern := Some ''general''\<rparr>) of
           (r, self3, w3) \<Rightarrow>
             r = Some AttributeError \<and>
             remove_after self3 = Some (Datetime 2000) \<and>
             removal_timer_handle self3 =
               Some \<lparr> fire_when = Datetime 2000, fire_event = server_removed, cancelled = False \<rparr> \<and>
             scheduled w3 = [(Datetime 4600, server_removed), (Datetime 2000, server_removed)] \<and>
             map (\<lambda>g. (dg_name (apiobject g), g_closed g)) (gen_guilds self3) =
               [(Some ''shill-chat'', 1), (Some ''shill-chat'', 0)]))"
proof -
  let ?s = "running ((plain_args ''shill'' None)\<lparr>a_remove_after := Some (Timedelta 3600)\<rparr>)"
  let ?w = "(snd ?s)\<lparr>now := 2000\<rparr>"
  let ?kw = "no_kwargs\<lparr>k_include_pattern := Some ''general''\<rparr>"
  let ?c = "close (fst ?s) ?w"
  let ?i = "initialize plain_env (fst ?c) (snd ?c) (parent (fst ?c)) (event_ctrl (fst ?c))"
  have e: "event_ctrl (fst ?s) = Some 0" by code_simp
  have ra: "remove_after_slot (fst ?s) = Some (Datetime 4600)" by code_simp
  have g0: "map (\<lambda>g. (dg_name (apiobject g), g_closed g)) (gen_guilds (fst ?s)) = [(Some ''shill-chat'', 0)]"
    by code_simp
  have h1: "close (fst ?s) ?w = (fst ?c, snd ?c)" by simp
  have h2: "update_try id plain_env (fst ?c) (snd ?c) None ?kw = (Some AttributeError, fst ?c, snd ?c)"
    by (simp add: update_try_def invite_track_def no_kwargs_def)
  have r: "fst ?i = None" by code_simp
  then have h3: "?i = (None, fst (snd ?i), snd (snd ?i))" by (metis prod.collapse)
  have n: "now (snd ?c) = 2000" by code_simp
  have sc: "scheduled (snd (snd ?i)) = [(Datetime 4600, server_removed), (Datetime 2000, server_removed)]"
    by code_simp
  have gg: "map (\<lambda>g. (dg_name (apiobject g), g_closed g)) (gen_guilds (fst (snd ?i))) =
               [(Some ''shill-chat'', 1), (Some ''shill-chat'', 0)]"
    by code_simp
  from on_update_rollback_resets_deadline [OF e ra h1 h2 h3]
  have A: "on_update_handler id plain_env (fst ?s) ?w None ?kw =
             (Some AttributeError, fst (snd ?i), snd (snd ?i))"
    and B: "remove_after (fst (snd ?i)) = Some (Datetime (now (snd ?c)))"
    and C: "removal_timer_handle (fst (snd ?i)) =
           Some \<lparr> fire_when = Datetime (now (snd ?c)), fire_event = server_removed, cancelled = False \<rparr>"
    by blast+
  show ?thesis
    unfolding case_prod_beta A using B C n sc gg ra g0 by (simp add: remove_after_def)
qed

text \<open>
  C1.  What \<open>_on_update\<close> does when the keyword arguments carry no
  \<open>invite_track\<close>: reading \<open>self.invite_track\<close> raises \<open>AttributeError\<close> inside the
  \<open>try\<close>, so the closed object is initialized again as it was and the exception
  propagates; the merged parameters are never used.  (With \<open>invite_track\<close> among the
  keyword arguments the same update goes through, as the second half of the instance
  below shows.)
\<close>

theorem update_without_invite_track_raises:
  assumes "k_invite_track kw = None"
  shows "(case close self w of (self1, w1) \<Rightarrow>
            on_update_handler re_sub ev self w io kw =
              (Some AttributeError, snd (initialize ev self1 w1 (parent self1) (event_ctrl self1))))"
  using assms
  by (simp add: on_update_handler_def update_try_def invite_track_def split: prod.splits)

theorem update_without_invite_track_raises_witness:
  "(case running (plain_args ''shill'' None) of (self, w) \<Rightarrow>
      (case on_update_handler id plain_env self w None
              (no_kwargs\<lparr>k_include_pattern := Some ''general''\<rparr>) of
         (r, self1, w1) \<Rightarrow>
            r = Some AttributeError \<and> include_pattern self1 = Some ''shill'' \<and>
            include_pattern (init id (merged_args self (no_kwargs\<lparr>k_include_pattern := Some ''general''\<rparr>)
                 (Some (messages self)) None)) = Some ''general'' \<and>
            map (\<lambda>g. dg_name (apiobject g)) (gen_guilds self1) = [Some ''shill-chat'', Some ''shill-chat'']) \<and>
      (case on_update_handler id plain_env self w None
              (no_kwargs\<lparr>k_include_pattern := Some ''general'', k_invite_track := Some None\<rparr>) of
         (r, self1, w1) \<Rightarrow>
            r = None \<and> include_pattern self1 = Some ''general'' \<and>
            map (\<lambda>g. dg_name (apiobject g)) (gen_guilds self1) = [Some ''general'']))"
proof -
  let ?s = "running (plain_args ''shill'' None)"
  let ?kw = "no_kwargs\<lparr>k_include_pattern := Some ''general''\<rparr>"
  let ?kw2 = "no_kwargs\<lparr>k_include_pattern := Some ''general'', k_invite_track := Some None\<rparr>"
  let ?u = "on_update_handler id plain_env (fst ?s) (snd ?s) None ?kw2"
  let ?c = "close (fst ?s) (snd ?s)"
  let ?i = "initialize plain_env (fst ?c) (snd ?c) (parent (fst ?c)) (event_ctrl (fst ?c))"
  have u: "fst ?u = None" "include_pattern (fst (snd ?u)) = Some ''general''"
    "map (\<lambda>g. dg_name (apiobject g)) (gen_guilds (fst (snd ?u))) = [Some ''general'']"
    by code_simp+
  have k: "k_invite_track ?kw = None" by (simp add: no_kwargs_def)
  have a: "include_pattern (fst (snd ?i)) = Some ''shill''" by code_simp
  have b: "map (\<lambda>g. dg_name (apiobject g)) (gen_guilds (fst (snd ?i))) = [Some ''shill-chat'', Some ''shill-chat'']"
    by code_simp
  have m: "include_pattern (init id (merged_args (fst ?s) ?kw (Some (messages (fst ?s))) None)) = Some ''general''"
    by (simp add: init_def merged_args_def no_kwargs_def)
  from update_without_invite_track_raises
         [OF k, where self = "fst ?s" and w = "snd ?s" and re_sub = id and ev = plain_env and io = None]
  have A: "on_update_handler id plain_env (fst ?s) (snd ?s) None ?kw = (Some AttributeError, snd ?i)"
    by (simp add: case_prod_beta)
  show ?thesis
    unfolding case_prod_beta A using a b m u by simp
qed


section \<open>Invite attribution\<close>

lemma first_changed_found:
  "(\<forall>(k', l') \<in> set pre. d k' = Some l') \<Longrightarrow> d k = Some u \<Longrightarrow> u \<noteq> last_uses \<Longrightarrow>
     first_changed (pre @ (k, last_uses) # post) d = Inr (Some (k, u))"
  by (induction pre) auto

lemma first_changed_none:
  "(\<forall>(k, l) \<in> set xs. d k = Some l) \<Longrightarrow> first_changed xs d = Inr None"
  by (induction xs) auto

lemma update_keys:
  "k \<in> fst ` set xs \<Longrightarrow> map fst (AList.update k u xs) = map fst xs"
  by (induction xs) auto

text \<open>
  What \<open>_on_member_join\<close> does when the tracked invites it looks at are all among
  the fetched ones: the first invite whose fetched use count differs from the stored
  one gets the fetched count and one log is saved; when none differs nothing changes.
\<close>

lemma on_member_join_attribution:
  assumes "get_invites ev self w = (Inr invs, self1)"
  shows "(\<forall>pre k last_uses post u.
            invite_join_count self = pre @ (k, last_uses) # post \<and>
            (\<forall>(k', l') \<in> set pre. invites_dict invs k' = Some l') \<and>
            invites_dict invs k = Some u \<and> u \<noteq> last_uses \<longrightarrow>
            (case on_member_join_handler ev self w memb of (r, self2, w2) \<Rightarrow>
               r = None \<and>
               invite_join_count self2 = AList.update k u (invite_join_count self) \<and>
               map fst (invite_join_count self2) = map fst (invite_join_count self) \<and>
               (\<forall>k'. k' \<noteq> k \<longrightarrow>
                  map_of (invite_join_count self2) k' = map_of (invite_join_count self) k') \<and>
               map_of (invite_join_count self2) k = Some u \<and>
               saved_logs w2 = saved_logs w @
                 [\<lparr> log_guild_name = dg_name (member_guild memb),
                    log_guild_id = dg_id (member_guild memb),
                    log_invite_id = k,
                    log_member_id = member_id memb,
                    log_member_name = member_name memb \<rparr>])) \<and>
         ((\<forall>(k, l) \<in> set (invite_join_count self). invites_dict invs k = Some l) \<longrightarrow>
            (case on_member_join_handler ev self w memb of (r, self2, w2) \<Rightarrow>
               r = None \<and> invite_join_count self2 = invite_join_count self \<and>
               saved_logs w2 = saved_logs w))"
proof -
  have c: "invite_join_count self1 = invite_join_count self"
    using get_invites_slots [OF assms] by simp
  show ?thesis
  proof (intro conjI allI impI)
    fix pre k last_uses post u
    assume h: "invite_join_count self = pre @ (k, last_uses) # post \<and>
            (\<forall>(k', l') \<in> set pre. invites_dict invs k' = Some l') \<and>
            invites_dict invs k = Some u \<and> u \<noteq> last_uses"
    then have f: "first_changed (invite_join_count self1) (invites_dict invs) = Inr (Some (k, u))"
      using first_changed_found [of pre "invites_dict invs" k u last_uses post] c by simp
    have k: "k \<in> fst ` set (invite_join_count self)" using h by force
    show "case on_member_join_handler ev self w memb of (r, self2, w2) \<Rightarrow>
               r = None \<and>
               invite_join_count self2 = AList.update k u (invite_join_count self) \<and>
               map fst (invite_join_count self2) = map fst (invite_join_count self) \<and>
               (\<forall>k'. k' \<noteq> k \<longrightarrow>
                  map_of (invite_join_count self2) k' = map_of (invite_join_count self) k') \<and>
               map_of (invite_join_count self2) k = Some u \<and>
               saved_logs w2 = saved_logs w @
                 [\<lparr> log_guild_name = dg_name (member_guild memb),
                    log_guild_id = dg_id (member_guild memb),
                    log_invite_id = k,
                    log_member_id = member_id memb,
                    log_member_name = member_name memb \<rparr>]"
      using assms f c update_keys [OF k, of u]
      by (simp add: on_member_join_handler_def update_conv')
  next
    assume "\<forall>(k, l) \<in> set (invite_join_count self). invites_dict invs k = Some l"
    then have "first_changed (invite_join_count self1) (invites_dict invs) = Inr None"
      using first_changed_none [of "invite_join_count self" "invites_dict invs"] c by simp
    then show "case on_member_join_handler ev self w memb of (r, self2, w2) \<Rightarrow>
               r = None \<and> invite_join_count self2 = invite_join_count self \<and>
               saved_logs w2 = saved_logs w"
      using assms c by (simp add: on_member_join_handler_def)
  qed
qed

lemma first_changed_missing:
  "(\<forall>(k', l') \<in> set pre. d k' = Some l') \<Longrightarrow> d k = None \<Longrightarrow>
     first_changed (pre @ (k, last_uses) # post) d = Inl KeyError"
  by (induction pre) auto

text \<open>
  C7.  What \<open>_on_member_join\<close> does when a tracked invite is not among the fetched
  invites (its guild was skipped by \<open>_get_invites\<close> after an \<open>HTTPException\<close> or for
  want of the manage-guild permission, or the invite is gone) and the tracked invites
  before it are unchanged: \<open>invites[id_]\<close> raises \<open>KeyError\<close>, no count is updated and
  nothing is logged, whatever the counts of the invites after it.
\<close>

theorem on_member_join_missing_invite:
  assumes "get_invites ev self w = (Inr invs, self1)"
      and "invite_join_count self = pre @ (k, last_uses) # post"
      and "\<forall>(k', l') \<in> set pre. invites_dict invs k' = Some l'"
      and "invites_dict invs k = None"
  shows "on_member_join_handler ev self w memb = (Some KeyError, self1, w) \<and>
         invite_join_count self1 = invite_join_count self"
proof -
  have c: "invite_join_count self1 = invite_join_count self"
    using get_invites_slots [OF assms(1)] by simp
  have "first_changed (invite_join_count self1) (invites_dict invs) = Inl KeyError"
    using first_changed_missing [OF assms(3) assms(4)] assms(2) c by simp
  then show ?thesis
    using assms(1) c by (simp add: on_member_join_handler_def)
qed

theorem on_member_join_missing_invite_witness:
  "invite_join_count (fst tracking_two) = [(''abc'', 5), (''xyz'', 7)] \<and>
   fst (get_invites plain_env (fst tracking_two)
          ((snd tracking_two)\<lparr>client_guilds :=
              shill_guilds (Inl HTTPException) (Inr [\<lparr>invite_id = ''xyz'', uses = 8\<rparr>])\<rparr>))
     = Inr [\<lparr>invite_id = ''xyz'', uses = 8\<rparr>] \<and>
   (case on_member_join_handler plain_env (fst tracking_two)
           ((snd tracking_two)\<lparr>client_guilds :=
              shill_guilds (Inl HTTPException) (Inr [\<lparr>invite_id = ''xyz'', uses = 8\<rparr>])\<rparr>)
           joining_member of
      (r, self2, w2) \<Rightarrow>
        r = Some KeyError \<and> invite_join_count self2 = [(''abc'', 5), (''xyz'', 7)] \<and>
        saved_logs w2 = [])"
proof -
  let ?w = "(snd tracking_two)\<lparr>client_guilds :=
              shill_guilds (Inl HTTPException) (Inr [\<lparr>invite_id = ''xyz'', uses = 8\<rparr>])\<rparr>"
  let ?i = "[\<lparr>invite_id = ''xyz'', uses = 8\<rparr>]"
  let ?g = "get_invites plain_env (fst tracking_two) ?w"
  have c: "invite_join_count (fst tracking_two) = [(''abc'', 5), (''xyz'', 7)]" by code_simp
  have s: "saved_logs ?w = []" by code_simp
  have f: "fst ?g = Inr ?i" by code_simp
  then have h: "?g = (Inr ?i, snd ?g)" by (metis prod.collapse)
  have d: "invite_join_count (fst tracking_two) = [] @ (''abc'', 5) # [(''xyz'', 7)]"
    using c by simp
  have p: "\<forall>(k', l') \<in> set ([] :: (string \<times> nat) list). invites_dict ?i k' = Some l'"
    by simp
  have n: "invites_dict ?i ''abc'' = None" by (simp add: invites_dict_def)
  note A = on_member_join_missing_invite [OF h d p n, of joining_member]
  show ?thesis
    unfolding case_prod_beta using A c s f by simp
qed

section \<open>The auto-join loop\<close>

lemma attempt_join_effect:
  "attempt_join ev self w y = (self2, w2) \<Longrightarrow>
     join_attempts w2 = join_attempts w + 1 \<and> listeners w2 = listeners w \<and>
     scheduled w2 = scheduled w \<and> event_ctrl self2 = event_ctrl self \<and>
     guild_join_count self \<le> guild_join_count self2 \<and>
     guild_join_count self2 \<le> guild_join_count self + 1"
  by (auto simp: attempt_join_def Let_def split: sum.splits option.splits if_splits)

lemma get_next_guild_effect:
  "get_next_guild ev self = (r, self1) \<Longrightarrow>
     event_ctrl self1 = event_ctrl self \<and> guild_join_count self1 = guild_join_count self"
  by (auto simp: get_next_guild_def Let_def split: option.splits list.splits sum.splits bool.splits)

lemma join_loop_effect:
  "event_ctrl self = Some c \<Longrightarrow>
     (case join_loop ev self w of (r, self2, w2) \<Rightarrow>
        r = None \<and> listeners w2 = listeners w \<and>
        guild_join_count self \<le> guild_join_count self2 \<and>
        (join_attempts w2 = join_attempts w \<and> scheduled w2 = scheduled w \<or>
         join_attempts w2 = join_attempts w + 1 \<and>
         scheduled w2 = scheduled w @ [(GUILD_JOIN_INTERVAL, auto_guild_start_join)]))"
proof (induction ev self w rule: join_loop.induct)
  case (1 ev self w)
  obtain r self1 where g: "get_next_guild ev self = (r, self1)"
    by (cases "get_next_guild ev self")
  note ge = get_next_guild_effect [OF g]
  show ?case
  proof (cases r)
    case None
    with g show ?thesis by (simp add: join_loop.simps [of ev self w] ge)
  next
    case (Some y)
    show ?thesis
    proof (cases "get_guild w (qr_id y) \<noteq> None")
      case True
      have ec: "event_ctrl (self1\<lparr>guild_join_count := guild_join_count self1 + 1\<rparr>) = Some c"
        using ge "1.prems" by simp
      from "1.IH" [OF g [symmetric] _ True ec] Some
      have ih: "case join_loop ev (self1\<lparr>guild_join_count := guild_join_count self1 + 1\<rparr>) w of
          (r, self2, w2) \<Rightarrow>
        r = None \<and> listeners w2 = listeners w \<and>
        guild_join_count (self1\<lparr>guild_join_count := guild_join_count self1 + 1\<rparr>) \<le> guild_join_count self2 \<and>
        (join_attempts w2 = join_attempts w \<and> scheduled w2 = scheduled w \<or>
         join_attempts w2 = join_attempts w + 1 \<and>
         scheduled w2 = scheduled w @ [(GUILD_JOIN_INTERVAL, auto_guild_start_join)])"
        by simp
      have eq: "join_loop ev self w = join_loop ev (self1\<lparr>guild_join_count := guild_join_count self1 + 1\<rparr>) w"
        using g Some True by (simp add: join_loop.simps [of ev self w])
      show ?thesis
        unfolding eq using ih ge by (auto split: prod.splits)
    next
      case False
      obtain self2 w2 where a: "attempt_join ev self1 w y = (self2, w2)"
        by (cases "attempt_join ev self1 w y")
      note ae = attempt_join_effect [OF a]
      have "event_ctrl self2 = Some c" using ae ge "1.prems" by simp
      then show ?thesis
        using g Some False a ae ge
        by (simp add: join_loop.simps [of ev self w] reset_auto_join_timer_def call_at_def)
    qed
  qed
qed


lemma rejected_by_pattern_patterns:
  "include_pattern self1 = include_pattern self \<Longrightarrow>
   exclude_pattern self1 = exclude_pattern self \<Longrightarrow>
   rejected_by_pattern rs self1 n = rejected_by_pattern rs self n"
  by (simp add: rejected_by_pattern_def split: option.splits)

lemma get_next_guild_candidate:
  assumes "guild_query_iter self = Some (Inr y # rest)"
      and "rejected_by_pattern (re_search_fn ev) self (qr_name y) = Inr False"
  shows "get_next_guild ev self = (Some y, self\<lparr>guild_query_iter := Some rest\<rparr>)"
  using assms
    rejected_by_pattern_patterns [of "self\<lparr>guild_query_iter := Some rest\<rparr>" self "re_search_fn ev" "qr_name y"]
  by (simp add: get_next_guild_def Let_def)

text \<open>
  What a firing of \<open>_join_guilds\<close> does to the listeners, the join count, the number
  of join attempts and the timers, for an initialized AutoGUILD with an auto-join
  capability.
\<close>

lemma join_guilds_firing:
  assumes "parent self = Some p" and "auto_join self = Some d" and "event_ctrl self = Some c"
  shows
    "((guild_query_iter self = None \<or> guild_join_count self = limit d \<or>
       length (client_guilds w) = GUILD_MAX_AMOUNT) \<longrightarrow>
        join_guilds_handler ev self w =
          (None, self, remove_listener auto_guild_start_join join_guilds w)) \<and>
     (\<not> (guild_query_iter self = None \<or> guild_join_count self = limit d \<or>
          length (client_guilds w) = GUILD_MAX_AMOUNT) \<longrightarrow>
        (case join_guilds_handler ev self w of (r, self2, w2) \<Rightarrow>
           r = None \<and> listeners w2 = listeners w \<and>
           guild_join_count self \<le> guild_join_count self2 \<and>
           (join_attempts w2 = join_attempts w \<and> scheduled w2 = scheduled w \<or>
            join_attempts w2 = join_attempts w + 1 \<and>
            scheduled w2 = scheduled w @ [(GUILD_JOIN_INTERVAL, auto_guild_start_join)]))) \<and>
     (\<forall>y rest.
        \<not> (guild_join_count self = limit d \<or> length (client_guilds w) = GUILD_MAX_AMOUNT) \<and>
        guild_query_iter self = Some (Inr y # rest) \<and>
        rejected_by_pattern (re_search_fn ev) self (qr_name y) = Inr False \<and>
        get_guild w (qr_id y) \<noteq> None \<longrightarrow>
        join_guilds_handler ev self w =
          join_loop ev
            (self\<lparr>guild_query_iter := Some rest, guild_join_count := guild_join_count self + 1\<rparr>) w) \<and>
     (\<forall>y rest.
        \<not> (guild_join_count self = limit d \<or> length (client_guilds w) = GUILD_MAX_AMOUNT) \<and>
        guild_query_iter self = Some (Inr y # rest) \<and>
        rejected_by_pattern (re_search_fn ev) self (qr_name y) = Inr False \<and>
        get_guild w (qr_id y) = None \<longrightarrow>
        (case join_guilds_handler ev self w of (r, self2, w2) \<Rightarrow>
           r = None \<and> guild_query_iter self2 = Some rest \<and>
           join_attempts w2 = join_attempts w + 1 \<and>
           scheduled w2 = scheduled w @ [(GUILD_JOIN_INTERVAL, auto_guild_start_join)])) \<and>
     (\<not> (guild_join_count self = limit d \<or> length (client_guilds w) = GUILD_MAX_AMOUNT) \<and>
      guild_query_iter self = Some [] \<longrightarrow>
        join_guilds_handler ev self w = (None, self\<lparr>guild_query_iter := None\<rparr>, w))"
proof (intro conjI allI impI)
  assume "guild_query_iter self = None \<or> guild_join_count self = limit d \<or>
       length (client_guilds w) = GUILD_MAX_AMOUNT"
  then show "join_guilds_handler ev self w =
          (None, self, remove_listener auto_guild_start_join join_guilds w)"
    using assms by (auto simp: join_guilds_handler_def stop_joining_def split: option.splits)
next
  assume n: "\<not> (guild_query_iter self = None \<or> guild_join_count self = limit d \<or>
          length (client_guilds w) = GUILD_MAX_AMOUNT)"
  then have "join_guilds_handler ev self w = join_loop ev self w"
    using assms by (auto simp: join_guilds_handler_def split: option.splits)
  then show "case join_guilds_handler ev self w of (r, self2, w2) \<Rightarrow>
           r = None \<and> listeners w2 = listeners w \<and>
           guild_join_count self \<le> guild_join_count self2 \<and>
           (join_attempts w2 = join_attempts w \<and> scheduled w2 = scheduled w \<or>
            join_attempts w2 = join_attempts w + 1 \<and>
            scheduled w2 = scheduled w @ [(GUILD_JOIN_INTERVAL, auto_guild_start_join)])"
    using join_loop_effect [OF assms(3), where ev = ev and w = w] by simp
next
  fix y rest
  assume h: "\<not> (guild_join_count self = limit d \<or> length (client_guilds w) = GUILD_MAX_AMOUNT) \<and>
        guild_query_iter self = Some (Inr y # rest) \<and>
        rejected_by_pattern (re_search_fn ev) self (qr_name y) = Inr False \<and>
        get_guild w (qr_id y) \<noteq> None"
  then have e: "join_guilds_handler ev self w = join_loop ev self w"
    using assms by (auto simp: join_guilds_handler_def split: option.splits)
  from h have g: "get_next_guild ev self = (Some y, self\<lparr>guild_query_iter := Some rest\<rparr>)"
    using get_next_guild_candidate by blast
  show "join_guilds_handler ev self w =
          join_loop ev
            (self\<lparr>guild_query_iter := Some rest, guild_join_count := guild_join_count self + 1\<rparr>) w"
    unfolding e using g h by (simp add: join_loop.simps [of ev self w])
next
  fix y rest
  assume h: "\<not> (guild_join_count self = limit d \<or> length (client_guilds w) = GUILD_MAX_AMOUNT) \<and>
        guild_query_iter self = Some (Inr y # rest) \<and>
        rejected_by_pattern (re_search_fn ev) self (qr_name y) = Inr False \<and>
        get_guild w (qr_id y) = None"
  then have e: "join_guilds_handler ev self w = join_loop ev self w"
    using assms by (auto simp: join_guilds_handler_def split: option.splits)
  from h have g: "get_next_guild ev self = (Some y, self\<lparr>guild_query_iter := Some rest\<rparr>)"
    using get_next_guild_candidate by blast
  obtain self2 w2 where a: "attempt_join ev (self\<lparr>guild_query_iter := Some rest\<rparr>) w y = (self2, w2)"
    by (cases "attempt_join ev (self\<lparr>guild_query_iter := Some rest\<rparr>) w y")
  have q: "guild_query_iter self2 = Some rest"
    using a by (auto simp: attempt_join_def Let_def split: sum.splits option.splits if_splits)
  show "case join_guilds_handler ev self w of (r, self2, w2) \<Rightarrow>
           r = None \<and> guild_query_iter self2 = Some rest \<and>
           join_attempts w2 = join_attempts w + 1 \<and>
           scheduled w2 = scheduled w @ [(GUILD_JOIN_INTERVAL, auto_guild_start_join)]"
    unfolding e using g h a q attempt_join_effect [OF a] assms(3)
    by (simp add: join_loop.simps [of ev self w] reset_auto_join_timer_def call_at_def)
next
  assume h: "\<not> (guild_join_count self = limit d \<or> length (client_guilds w) = GUILD_MAX_AMOUNT) \<and>
      guild_query_iter self = Some []"
  then have e: "join_guilds_handler ev self w = join_loop ev self w"
    using assms by (auto simp: join_guilds_handler_def split: option.splits)
  show "join_guilds_handler ev self w = (None, self\<lparr>guild_query_iter := None\<rparr>, w)"
    unfolding e using h by (simp add: join_loop.simps [of ev self w] get_next_guild_def)
qed

lemma rejected_by_pattern_rule:
  "(rejected_by_pattern rs self n = Inr b) = (check_name_match rs self (Some n) = Inr (\<not> b))"
  by (auto simp: rejected_by_pattern_def check_name_match_def
      split: option.splits sum.splits bool.splits)

lemma get_next_guild_rejected:
  assumes "guild_query_iter self = Some (Inr y # rest)"
      and "rejected_by_pattern (re_search_fn ev) self (qr_name y) = Inr True"
  shows "get_next_guild ev self = (None, self\<lparr>guild_query_iter := Some rest\<rparr>)"
  using assms
    rejected_by_pattern_patterns [of "self\<lparr>guild_query_iter := Some rest\<rparr>" self "re_search_fn ev" "qr_name y"]
  by (simp add: get_next_guild_def Let_def)

text \<open>
  C5.  What a firing of \<open>_join_guilds\<close> does when \<open>get_next_guild\<close> gives \<open>None\<close>,
  for an initialized AutoGUILD whose join count is not at the limit and whose client
  has fewer than 100 guilds.  The candidate is filtered by the rule of
  \<open>_check_name_match\<close>.  When the next candidate does not match, the firing returns
  with that candidate consumed and nothing else changed: no join is attempted, no timer
  is armed and the listener stays, so no further firing follows although candidates
  are left.  When the feed is exhausted, the firing sets the iterator to \<open>None\<close> and
  returns in the same way: the listener is not removed.  Only a candidate that matches
  and is not yet joined leads to an attempt, and then to a new timer.
\<close>

theorem join_guilds_return_skips_rearm:
  assumes "parent self = Some p" and "auto_join self = Some d" and "event_ctrl self = Some c"
      and "guild_join_count self \<noteq> limit d"
      and "length (client_guilds w) \<noteq> GUILD_MAX_AMOUNT"
  shows
    "(\<forall>y rest.
        guild_query_iter self = Some (Inr y # rest) \<and>
        check_name_match (re_search_fn ev) self (Some (qr_name y)) = Inr False \<longrightarrow>
        join_guilds_handler ev self w = (None, self\<lparr>guild_query_iter := Some rest\<rparr>, w)) \<and>
     (guild_query_iter self = Some [] \<longrightarrow>
        join_guilds_handler ev self w = (None, self\<lparr>guild_query_iter := None\<rparr>, w)) \<and>
     (\<forall>y rest.
        guild_query_iter self = Some (Inr y # rest) \<and>
        check_name_match (re_search_fn ev) self (Some (qr_name y)) = Inr True \<and>
        get_guild w (qr_id y) = None \<longrightarrow>
        (case join_guilds_handler ev self w of (r, self2, w2) \<Rightarrow>
           r = None \<and> guild_query_iter self2 = Some rest \<and>
           join_attempts w2 = join_attempts w + 1 \<and> listeners w2 = listeners w \<and>
           scheduled w2 = scheduled w @ [(GUILD_JOIN_INTERVAL, auto_guild_start_join)]))"
proof (intro conjI allI impI)
  fix y rest
  assume h: "guild_query_iter self = Some (Inr y # rest) \<and>
        check_name_match (re_search_fn ev) self (Some (qr_name y)) = Inr False"
  then have e: "join_guilds_handler ev self w = join_loop ev self w"
    using assms by (auto simp: join_guilds_handler_def split: option.splits)
  from h have "rejected_by_pattern (re_search_fn ev) self (qr_name y) = Inr True"
    using rejected_by_pattern_rule [of "re_search_fn ev" self "qr_name y" True] by simp
  with h have g: "get_next_guild ev self = (None, self\<lparr>guild_query_iter := Some rest\<rparr>)"
    using get_next_guild_rejected by blast
  show "join_guilds_handler ev self w = (None, self\<lparr>guild_query_iter := Some rest\<rparr>, w)"
    unfolding e using g by (simp add: join_loop.simps [of ev self w])
next
  assume h: "guild_query_iter self = Some []"
  then have e: "join_guilds_handler ev self w = join_loop ev self w"
    using assms by (auto simp: join_guilds_handler_def split: option.splits)
  show "join_guilds_handler ev self w = (None, self\<lparr>guild_query_iter := None\<rparr>, w)"
    unfolding e using h by (simp add: join_loop.simps [of ev self w] get_next_guild_def)
next
  fix y rest
  assume h: "guild_query_iter self = Some (Inr y # rest) \<and>
        check_name_match (re_search_fn ev) self (Some (qr_name y)) = Inr True \<and>
        get_guild w (qr_id y) = None"
  then have e: "join_guilds_handler ev self w = join_loop ev self w"
    using assms by (auto simp: join_guilds_handler_def split: option.splits)
  from h have "rejected_by_pattern (re_search_fn ev) self (qr_name y) = Inr False"
    using rejected_by_pattern_rule [of "re_search_fn ev" self "qr_name y" False] by simp
  with h have g: "get_next_guild ev self = (Some y, self\<lparr>guild_query_iter := Some rest\<rparr>)"
    using get_next_guild_candidate by blast
  obtain self2 w2 where a: "attempt_join ev (self\<lparr>guild_query_iter := Some rest\<rparr>) w y = (self2, w2)"
    by (cases "attempt_join ev (self\<lparr>guild_query_iter := Some rest\<rparr>) w y")
  have q: "guild_query_iter self2 = Some rest"
    using a by (auto simp: attempt_join_def Let_def split: sum.splits option.splits if_splits)
  show "case join_guilds_handler ev self w of (r, self2, w2) \<Rightarrow>
           r = None \<and> guild_query_iter self2 = Some rest \<and>
           join_attempts w2 = join_attempts w + 1 \<and> listeners w2 = listeners w \<and>
           scheduled w2 = scheduled w @ [(GUILD_JOIN_INTERVAL, auto_guild_start_join)]"
    unfolding e using g h a q attempt_join_effect [OF a] assms(3)
    by (simp add: join_loop.simps [of ev self w] reset_auto_join_timer_def call_at_def)
qed

theorem join_guilds_return_skips_rearm_witness:
  "(case joining [candidate 7 ''general-talk'', candidate 8 ''shill-two''] 5 of (self, w) \<Rightarrow>
      guild_join_count self = 0 \<and> length (client_guilds w) = 2 \<and>
      (auto_guild_start_join, join_guilds, is_self) \<in> set (listeners w) \<and>
      join_guilds_handler plain_env self w =
        (None, self\<lparr>guild_query_iter := Some [candidate 8 ''shill-two'']\<rparr>, w)) \<and>
   (case joining [] 5 of (self, w) \<Rightarrow>
      guild_join_count self = 0 \<and> length (client_guilds w) = 2 \<and>
      (auto_guild_start_join, join_guilds, is_self) \<in> set (listeners w) \<and>
      join_guilds_handler plain_env self w = (None, self\<lparr>guild_query_iter := None\<rparr>, w)) \<and>
   (case joining [candidate 8 ''shill-two''] 5 of (self, w) \<Rightarrow>
      (case join_guilds_handler plain_env self w of (r, self2, w2) \<Rightarrow>
         r = None \<and> guild_query_iter self2 = Some [] \<and> join_attempts w2 = 1 \<and>
         scheduled w2 = scheduled w @ [(GUILD_JOIN_INTERVAL, auto_guild_start_join)]))"
proof -
  let ?f1 = "[candidate 7 ''general-talk'', candidate 8 ''shill-two'']"
  let ?s1 = "joining ?f1 5"
  let ?s2 = "joining [] 5"
  let ?f3 = "[candidate 8 ''shill-two'']"
  let ?s3 = "joining ?f3 5"
  let ?y7 = "\<lparr> qr_id = 7, qr_name = ''general-talk'', qr_url = ''general-talk'' \<rparr>"
  let ?y8 = "\<lparr> qr_id = 8, qr_name = ''shill-two'', qr_url = ''shill-two'' \<rparr>"
  have p1: "parent (fst ?s1) = Some 0" and c1: "event_ctrl (fst ?s1) = Some 0"
    and a1: "auto_join (fst ?s1) = Some \<lparr> limit = 5, feed = ?f1, init_result = None, d_closed = 0 \<rparr>"
    and n1: "guild_join_count (fst ?s1) = 0" and l1: "length (client_guilds (snd ?s1)) = 2"
    and r1: "(auto_guild_start_join, join_guilds, is_self) \<in> set (listeners (snd ?s1))"
    and q1: "guild_query_iter (fst ?s1) = Some (Inr ?y7 # [candidate 8 ''shill-two''])"
    and m1: "check_name_match (re_search_fn plain_env) (fst ?s1) (Some (qr_name ?y7)) = Inr False"
    by code_simp+
  have p2: "parent (fst ?s2) = Some 0" and c2: "event_ctrl (fst ?s2) = Some 0"
    and a2: "auto_join (fst ?s2) = Some \<lparr> limit = 5, feed = [], init_result = None, d_closed = 0 \<rparr>"
    and n2: "guild_join_count (fst ?s2) = 0" and l2: "length (client_guilds (snd ?s2)) = 2"
    and r2: "(auto_guild_start_join, join_guilds, is_self) \<in> set (listeners (snd ?s2))"
    and q2: "guild_query_iter (fst ?s2) = Some []"
    by code_simp+
  have p3: "parent (fst ?s3) = Some 0" and c3: "event_ctrl (fst ?s3) = Some 0"
    and a3: "auto_join (fst ?s3) = Some \<lparr> limit = 5, feed = ?f3, init_result = None, d_closed = 0 \<rparr>"
    and n3: "guild_join_count (fst ?s3) = 0" and l3: "length (client_guilds (snd ?s3)) = 2"
    and q3: "guild_query_iter (fst ?s3) = Some (Inr ?y8 # [])"
    and m3: "check_name_match (re_search_fn plain_env) (fst ?s3) (Some (qr_name ?y8)) = Inr True"
    and g3: "get_guild (snd ?s3) (qr_id ?y8) = None"
    and j3: "join_attempts (snd ?s3) = 0"
    by code_simp+
  have k1: "guild_join_count (fst ?s1) \<noteq> limit \<lparr> limit = 5, feed = ?f1, init_result = None, d_closed = 0 \<rparr>"
    "length (client_guilds (snd ?s1)) \<noteq> GUILD_MAX_AMOUNT"
    using n1 l1 by (simp_all add: GUILD_MAX_AMOUNT_def)
  have k2: "guild_join_count (fst ?s2) \<noteq> limit \<lparr> limit = 5, feed = [], init_result = None, d_closed = 0 \<rparr>"
    "length (client_guilds (snd ?s2)) \<noteq> GUILD_MAX_AMOUNT"
    using n2 l2 by (simp_all add: GUILD_MAX_AMOUNT_def)
  have k3: "guild_join_count (fst ?s3) \<noteq> limit \<lparr> limit = 5, feed = ?f3, init_result = None, d_closed = 0 \<rparr>"
    "length (client_guilds (snd ?s3)) \<noteq> GUILD_MAX_AMOUNT"
    using n3 l3 by (simp_all add: GUILD_MAX_AMOUNT_def)
  note A = join_guilds_return_skips_rearm [OF p1 a1 c1 k1, where ev = plain_env,
      THEN conjunct1, rule_format, OF conjI [OF q1 m1]]
  note B = join_guilds_return_skips_rearm [OF p2 a2 c2 k2, where ev = plain_env,
      THEN conjunct2, THEN conjunct1, THEN mp, OF q2]
  note C = join_guilds_return_skips_rearm [OF p3 a3 c3 k3, where ev = plain_env,
      THEN conjunct2, THEN conjunct2, rule_format, OF conjI [OF q3 conjI [OF m3 g3]]]
  show ?thesis
    unfolding case_prod_beta using A B C n1 l1 r1 n2 l2 r2 j3
    by (simp add: candidate_def case_prod_beta)
qed

section \<open>Template messages and generated guilds\<close>

lemma fan_out_add_success:
  "fan_out_add ev m gs w = (None, gs1, w1) \<Longrightarrow>
     length gs1 = length gs \<and> w1 = w\<lparr>next_ref := next_ref w + length gs\<rparr> \<and>
     (\<forall>i < length gs.
        gs1 ! i = (gs ! i)\<lparr>g_messages := g_messages (gs ! i) @ [m\<lparr>ref := next_ref w + i\<rparr>]\<rparr>)"
proof (induction gs arbitrary: w gs1 w1)
  case Nil
  then show ?case by simp
next
  case (Cons g gs)
  let ?w = "w\<lparr>next_ref := next_ref w + 1\<rparr>"
  obtain rs gs2 w2 where f: "fan_out_add ev m gs ?w = (rs, gs2, w2)"
    by (cases "fan_out_add ev m gs ?w")
  from Cons.prems f have r: "rs = None"
    and g1: "gs1 = (g\<lparr>g_messages := g_messages g @ [m\<lparr>ref := next_ref w\<rparr>]\<rparr>) # gs2"
    and w1: "w1 = w2"
    and mi: "message_initialize ev (apiobject g) (m\<lparr>ref := next_ref w\<rparr>) = None"
    by (auto simp: deepcopy_def GUILD_add_message_def Let_def split: option.splits)
  note ih = Cons.IH [OF f [unfolded r]]
  show ?case
  proof (intro conjI allI impI)
    show "length gs1 = length (g # gs)" using ih g1 by simp
    show "w1 = w\<lparr>next_ref := next_ref w + length (g # gs)\<rparr>" using ih w1 by simp
  next
    fix i assume "i < length (g # gs)"
    then show "gs1 ! i = ((g # gs) ! i)\<lparr>g_messages := g_messages ((g # gs) ! i) @ [m\<lparr>ref := next_ref w + i\<rparr>]\<rparr>"
      using ih g1 by (cases i) simp_all
  qed
qed

lemma index_of_found:
  "index_of m xs = Inr idx \<Longrightarrow>
     0 \<le> idx \<and> nat idx < length xs \<and> msg_eq (xs ! nat idx) m"
proof (induction xs arbitrary: idx)
  case Nil
  then show ?case by simp
next
  case (Cons x xs)
  show ?case
  proof (cases "msg_eq x m")
    case True
    with Cons.prems show ?thesis by simp
  next
    case False
    with Cons.prems obtain j where j: "index_of m xs = Inr j" and i: "idx = j + 1"
      by (auto split: sum.splits)
    from Cons.IH [OF j] i show ?thesis
      by (simp add: nat_add_distrib)
  qed
qed

lemma list_remove_eq:
  "msg_eq a b \<Longrightarrow> list_remove a xs = list_remove b xs"
  by (induction xs) (auto simp: msg_eq_def)

lemma list_remove_copies:
  "list_remove m xs = Inr ys \<Longrightarrow> Suc (copies_of m ys) = copies_of m xs"
proof (induction xs arbitrary: ys)
  case Nil
  then show ?case by simp
next
  case (Cons x xs)
  then show ?case
    by (cases "msg_eq x m") (auto simp: copies_of_def split: sum.splits)
qed

lemma fan_out_remove_success:
  "fan_out_remove m gs = (None, gs1) \<Longrightarrow>
     list_all2 (\<lambda>g g1. list_remove m (g_messages g) = Inr (g_messages g1) \<and>
                        apiobject g1 = apiobject g) gs gs1"
proof (induction gs arbitrary: gs1)
  case Nil
  then show ?case by simp
next
  case (Cons g gs)
  from Cons.prems obtain idx where i: "index_of m (g_messages g) = Inr idx"
    by (auto split: sum.splits)
  note f = index_of_found [OF i]
  then have n: "idx \<noteq> - 1" by simp
  have e: "list_remove (g_messages g ! nat idx) (g_messages g) = list_remove m (g_messages g)"
    using list_remove_eq f by blast
  obtain rs gs2 where r: "fan_out_remove m gs = (rs, gs2)"
    by (cases "fan_out_remove m gs")
  from Cons.prems i n r e obtain ms where
    rs: "rs = None" and l: "list_remove m (g_messages g) = Inr ms"
    and g1: "gs1 = (g\<lparr>g_messages := ms\<rparr>) # gs2"
    by (auto simp: GUILD_remove_message_def Let_def split: sum.splits option.splits)
  from Cons.IH [OF r [unfolded rs]] l g1 show ?case by simp
qed

lemma deepcopy_list_fst:
  "length (fst (deepcopy_list ms w)) = length ms \<and>
   (\<forall>i < length ms. fst (deepcopy_list ms w) ! i = (ms ! i)\<lparr>ref := next_ref w + i\<rparr>)"
proof (induction ms arbitrary: w)
  case Nil
  show ?case by simp
next
  case (Cons m ms)
  note ih = Cons.IH [of "w\<lparr>next_ref := next_ref w + 1\<rparr>"]
  show ?case
  proof (intro conjI allI impI)
    show "length (fst (deepcopy_list (m # ms) w)) = length (m # ms)"
      using ih by (simp add: deepcopy_def case_prod_beta)
  next
    fix i assume "i < length (m # ms)"
    then show "fst (deepcopy_list (m # ms) w) ! i = ((m # ms) ! i)\<lparr>ref := next_ref w + i\<rparr>"
      using ih by (cases i) (simp_all add: deepcopy_def case_prod_beta)
  qed
qed

lemma list_remove_split:
  "list_remove m xs = Inr ys \<Longrightarrow>
     \<exists>pre x post. xs = pre @ x # post \<and> msg_eq x m \<and> (\<forall>y \<in> set pre. \<not> msg_eq y m) \<and>
        ys = pre @ post"
proof (induction xs arbitrary: ys)
  case Nil
  then show ?case by simp
next
  case (Cons a xs)
  show ?case
  proof (cases "msg_eq a m")
    case True
    with Cons.prems have "ys = xs" by simp
    with True have "a # xs = [] @ a # xs \<and> msg_eq a m \<and> (\<forall>y \<in> set []. \<not> msg_eq y m) \<and> ys = [] @ xs"
      by simp
    then show ?thesis by blast
  next
    case False
    with Cons.prems obtain zs where z: "list_remove m xs = Inr zs" and y: "ys = a # zs"
      by (auto split: sum.splits)
    from Cons.IH [OF z] obtain pre x post where
      "xs = pre @ x # post" "msg_eq x m" "\<forall>y \<in> set pre. \<not> msg_eq y m" "zs = pre @ post"
      by blast
    with False y have "a # xs = (a # pre) @ x # post \<and> msg_eq x m \<and>
        (\<forall>y \<in> set (a # pre). \<not> msg_eq y m) \<and> ys = (a # pre) @ post"
      by simp
    then show ?thesis by blast
  qed
qed

lemma fan_out_remove_exact:
  "fan_out_remove m gs = (None, gs1) \<Longrightarrow>
     list_all2 (\<lambda>g g1. \<exists>ms. list_remove m (g_messages g) = Inr ms \<and> g1 = g\<lparr>g_messages := ms\<rparr>)
       gs gs1"
proof (induction gs arbitrary: gs1)
  case Nil
  then show ?case by simp
next
  case (Cons g gs)
  from Cons.prems obtain idx where i: "index_of m (g_messages g) = Inr idx"
    by (auto split: sum.splits)
  note f = index_of_found [OF i]
  then have n: "idx \<noteq> - 1" by simp
  have e: "list_remove (g_messages g ! nat idx) (g_messages g) = list_remove m (g_messages g)"
    using list_remove_eq f by blast
  obtain rs gs2 where r: "fan_out_remove m gs = (rs, gs2)"
    by (cases "fan_out_remove m gs")
  from Cons.prems i n r e obtain ms where
    rs: "rs = None" and l: "list_remove m (g_messages g) = Inr ms"
    and g1: "gs1 = (g\<lparr>g_messages := ms\<rparr>) # gs2"
    by (auto simp: GUILD_remove_message_def Let_def split: sum.splits option.splits)
  from Cons.IH [OF r [unfolded rs]] l g1 show ?case by simp
qed

text \<open>
  C4, as amended.  After \<open>add_message(m)\<close> has completed without an exception, the
  template list ends with \<open>m\<close> and the message list of every generated guild ends
  with a deep copy of \<open>m\<close> of its own: equal to \<open>m\<close>, and a new object; nothing else
  changes.  After \<open>remove_message(m)\<close> has completed without an exception, the first
  message equal to \<open>m\<close> is gone from the template list and from the list of every
  generated guild, and every other message is where it was; when each of these lists
  held exactly one message equal to \<open>m\<close>, none of them holds one any more.  A guild
  generated later is kept only if its initialization succeeds, and then holds deep
  copies of the templates of that moment, in order; the templates stay as they are.
\<close>

theorem template_messages_fan_out:
  "(\<forall>self1 w1. add_message ev self w m = (None, self1, w1) \<longrightarrow>
      messages self1 = messages self @ [m\<lparr>remote_allowed := False\<rparr>] \<and>
      length (gen_guilds self1) = length (gen_guilds self) \<and>
      self1 = self\<lparr>messages_slot := messages self1, gen_guilds := gen_guilds self1\<rparr> \<and>
      (\<forall>i < length (gen_guilds self).
         gen_guilds self1 ! i =
           (gen_guilds self ! i)
             \<lparr>g_messages := g_messages (gen_guilds self ! i) @
                 [m\<lparr>remote_allowed := False, ref := next_ref w + i\<rparr>]\<rparr> \<and>
         msg_eq (m\<lparr>remote_allowed := False, ref := next_ref w + i\<rparr>) m \<and>
         (ref m < next_ref w \<longrightarrow> ref (m\<lparr>remote_allowed := False, ref := next_ref w + i\<rparr>) \<noteq> ref m))) \<and>
   (\<forall>self1. remove_message self m = (None, self1) \<longrightarrow>
      (\<exists>pre x post. messages self = pre @ x # post \<and> msg_eq x m \<and>
          (\<forall>y \<in> set pre. \<not> msg_eq y m) \<and> messages self1 = pre @ post) \<and>
      list_all2
        (\<lambda>g g1. \<exists>pre x post. g_messages g = pre @ x # post \<and> msg_eq x m \<and>
            (\<forall>y \<in> set pre. \<not> msg_eq y m) \<and> g1 = g\<lparr>g_messages := pre @ post\<rparr>)
        (gen_guilds self) (gen_guilds self1) \<and>
      self1 = self\<lparr>messages_slot := messages self1, gen_guilds := gen_guilds self1\<rparr> \<and>
      (copies_of m (messages self) = 1 \<and>
       (\<forall>g \<in> set (gen_guilds self). copies_of m (g_messages g) = 1) \<longrightarrow>
         copies_of m (messages self1) = 0 \<and>
         (\<forall>g1 \<in> set (gen_guilds self1). copies_of m (g_messages g1) = 0))) \<and>
   (case make_new_guild ev self w guild of (self1, w1) \<Rightarrow>
      (case guild_initialize ev guild of
         Some e \<Rightarrow> gen_guilds self1 = gen_guilds self
       | None \<Rightarrow>
           (\<exists>new. gen_guilds self1 = gen_guilds self @ [new] \<and> apiobject new = guild \<and>
              g_logging new = logging self \<and> g_closed new = 0 \<and>
              length (g_messages new) = length (messages self) \<and>
              (\<forall>i < length (messages self).
                 g_messages new ! i = (messages self ! i)\<lparr>ref := next_ref w + i\<rparr>))) \<and>
      messages self1 = messages self)"
proof (intro conjI allI impI)
  fix self1 w1
  assume a: "add_message ev self w m = (None, self1, w1)"
  let ?m = "m\<lparr>remote_allowed := False\<rparr>"
  obtain r gs w2 where f: "fan_out_add ev ?m (gen_guilds self) w = (r, gs, w2)"
    by (cases "fan_out_add ev ?m (gen_guilds self) w")
  from a f have r: "r = None" and s1: "self1 = self\<lparr>messages_slot := messages_slot self @ [?m], gen_guilds := gs\<rparr>"
    by (simp_all add: add_message_def Let_def)
  note fs = fan_out_add_success [OF f [unfolded r]]
  show "messages self1 = messages self @ [?m]" using s1 by (simp add: messages_def)
  show "length (gen_guilds self1) = length (gen_guilds self)" using s1 fs by simp
  show "self1 = self\<lparr>messages_slot := messages self1, gen_guilds := gen_guilds self1\<rparr>"
    using s1 by (simp add: messages_def)
  fix i assume i: "i < length (gen_guilds self)"
  show "gen_guilds self1 ! i =
           (gen_guilds self ! i)
             \<lparr>g_messages := g_messages (gen_guilds self ! i) @
                 [m\<lparr>remote_allowed := False, ref := next_ref w + i\<rparr>]\<rparr>"
    using s1 fs i by simp
  show "msg_eq (m\<lparr>remote_allowed := False, ref := next_ref w + i\<rparr>) m"
    by (simp add: msg_eq_def)
  assume "ref m < next_ref w"
  then show "ref (m\<lparr>remote_allowed := False, ref := next_ref w + i\<rparr>) \<noteq> ref m"
    by simp
next
  fix self1
  assume a: "remove_message self m = (None, self1)"
  then obtain ms where l: "list_remove m (messages_slot self) = Inr ms"
    by (auto simp: remove_message_def split: sum.splits)
  obtain r gs where f: "fan_out_remove m (gen_guilds self) = (r, gs)"
    by (cases "fan_out_remove m (gen_guilds self)")
  from a l f have r: "r = None" and s1: "self1 = self\<lparr>messages_slot := ms, gen_guilds := gs\<rparr>"
    by (simp_all add: remove_message_def)
  note fs = fan_out_remove_success [OF f [unfolded r]]
  note fe = fan_out_remove_exact [OF f [unfolded r]]
  show "\<exists>pre x post. messages self = pre @ x # post \<and> msg_eq x m \<and>
          (\<forall>y \<in> set pre. \<not> msg_eq y m) \<and> messages self1 = pre @ post"
    using list_remove_split [OF l] s1 by (simp add: messages_def)
  show "list_all2
        (\<lambda>g g1. \<exists>pre x post. g_messages g = pre @ x # post \<and> msg_eq x m \<and>
            (\<forall>y \<in> set pre. \<not> msg_eq y m) \<and> g1 = g\<lparr>g_messages := pre @ post\<rparr>)
        (gen_guilds self) (gen_guilds self1)"
  proof -
    have "list_all2
        (\<lambda>g g1. \<exists>pre x post. g_messages g = pre @ x # post \<and> msg_eq x m \<and>
            (\<forall>y \<in> set pre. \<not> msg_eq y m) \<and> g1 = g\<lparr>g_messages := pre @ post\<rparr>)
        (gen_guilds self) gs"
      using fe
    proof (rule list_all2_mono)
      fix g g1
      assume "\<exists>ms. list_remove m (g_messages g) = Inr ms \<and> g1 = g\<lparr>g_messages := ms\<rparr>"
      then obtain ms where ms: "list_remove m (g_messages g) = Inr ms" and g1: "g1 = g\<lparr>g_messages := ms\<rparr>"
        by blast
      from list_remove_split [OF ms] g1
      show "\<exists>pre x post. g_messages g = pre @ x # post \<and> msg_eq x m \<and>
            (\<forall>y \<in> set pre. \<not> msg_eq y m) \<and> g1 = g\<lparr>g_messages := pre @ post\<rparr>"
        by blast
    qed
    then show ?thesis using s1 by simp
  qed
  show "self1 = self\<lparr>messages_slot := messages self1, gen_guilds := gen_guilds self1\<rparr>"
    using s1 by (simp add: messages_def)
  have t: "Suc (copies_of m (messages self1)) = copies_of m (messages self)"
    using list_remove_copies [OF l] s1 by (simp add: messages_def)
  have g: "list_all2 (\<lambda>g g1. Suc (copies_of m (g_messages g1)) = copies_of m (g_messages g) \<and>
                         apiobject g1 = apiobject g)
        (gen_guilds self) (gen_guilds self1)"
    using fs s1 by (auto elim!: list_all2_mono dest: list_remove_copies)
  assume one: "copies_of m (messages self) = 1 \<and>
       (\<forall>g \<in> set (gen_guilds self). copies_of m (g_messages g) = 1)"
  show "copies_of m (messages self1) = 0" using t one by simp
  show "\<forall>g1 \<in> set (gen_guilds self1). copies_of m (g_messages g1) = 0"
  proof
    fix g1 assume "g1 \<in> set (gen_guilds self1)"
    then obtain j where j: "j < length (gen_guilds self1)" and e: "g1 = gen_guilds self1 ! j"
      by (auto simp: in_set_conv_nth)
    from g j have "j < length (gen_guilds self)" by (simp add: list_all2_lengthD)
    moreover from g j have "Suc (copies_of m (g_messages (gen_guilds self1 ! j))) =
        copies_of m (g_messages (gen_guilds self ! j))"
      by (simp add: list_all2_conv_all_nth)
    ultimately show "copies_of m (g_messages g1) = 0"
      using one e by (metis One_nat_def nat.inject nth_mem)
  qed
next
  show "case make_new_guild ev self w guild of (self1, w1) \<Rightarrow>
      (case guild_initialize ev guild of
         Some e \<Rightarrow> gen_guilds self1 = gen_guilds self
       | None \<Rightarrow>
           (\<exists>new. gen_guilds self1 = gen_guilds self @ [new] \<and> apiobject new = guild \<and>
              g_logging new = logging self \<and> g_closed new = 0 \<and>
              length (g_messages new) = length (messages self) \<and>
              (\<forall>i < length (messages self).
                 g_messages new ! i = (messages self ! i)\<lparr>ref := next_ref w + i\<rparr>))) \<and>
      messages self1 = messages self"
    using deepcopy_list_fst [of "messages_slot self" w]
    by (auto simp: make_new_guild_def messages_def Let_def case_prod_beta split: option.splits)
qed


theorem template_messages_fan_out_witness:
  "(case running ((plain_args ''shill'' None)\<lparr>a_messages := Some [msg 1, msg 2]\<rparr>) of (self, w) \<Rightarrow>
      messages self = [(msg 1)\<lparr>remote_allowed := False\<rparr>, (msg 2)\<lparr>remote_allowed := False\<rparr>] \<and>
      map g_messages (gen_guilds self) =
        [ [(msg 1)\<lparr>remote_allowed := False, ref := 100\<rparr>,
           (msg 2)\<lparr>remote_allowed := False, ref := 101\<rparr>] ] \<and>
      next_ref w = 102 \<and>
      (case add_message plain_env self w (msg 3) of (r, self1, w1) \<Rightarrow>
         r = None \<and>
         messages self1 =
           [(msg 1)\<lparr>remote_allowed := False\<rparr>, (msg 2)\<lparr>remote_allowed := False\<rparr>,
            (msg 3)\<lparr>remote_allowed := False\<rparr>] \<and>
         g_messages (gen_guilds self1 ! 0) =
           [(msg 1)\<lparr>remote_allowed := False, ref := 100\<rparr>,
            (msg 2)\<lparr>remote_allowed := False, ref := 101\<rparr>,
            (msg 3)\<lparr>remote_allowed := False, ref := 102\<rparr>]) \<and>
      (case remove_message self (msg 1) of (r, self1) \<Rightarrow>
         r = None \<and>
         messages self1 = [(msg 2)\<lparr>remote_allowed := False\<rparr>] \<and>
         map g_messages (gen_guilds self1) = [ [(msg 2)\<lparr>remote_allowed := False, ref := 101\<rparr>] ] \<and>
         copies_of (msg 1) (messages self1) = 0 \<and>
         (\<forall>g1 \<in> set (gen_guilds self1). copies_of (msg 1) (g_messages g1) = 0)))"
proof -
  let ?s = "running ((plain_args ''shill'' None)\<lparr>a_messages := Some [msg 1, msg 2]\<rparr>)"
  let ?a = "add_message plain_env (fst ?s) (snd ?s) (msg 3)"
  let ?r = "remove_message (fst ?s) (msg 1)"
  have m: "messages (fst ?s) = [(msg 1)\<lparr>remote_allowed := False\<rparr>, (msg 2)\<lparr>remote_allowed := False\<rparr>]"
    by code_simp
  have g: "map g_messages (gen_guilds (fst ?s)) =
        [ [(msg 1)\<lparr>remote_allowed := False, ref := 100\<rparr>,
           (msg 2)\<lparr>remote_allowed := False, ref := 101\<rparr>] ]"
    by code_simp
  have gl: "length (gen_guilds (fst ?s)) = 1" by code_simp
  have g0: "g_messages (gen_guilds (fst ?s) ! 0) =
        [(msg 1)\<lparr>remote_allowed := False, ref := 100\<rparr>,
         (msg 2)\<lparr>remote_allowed := False, ref := 101\<rparr>]"
    by code_simp
  have n: "next_ref (snd ?s) = 102" by code_simp
  have fa: "fst ?a = None" by code_simp
  then have ha: "?a = (None, fst (snd ?a), snd (snd ?a))" by (metis prod.collapse)
  have fr: "fst ?r = None" by code_simp
  then have hr: "?r = (None, snd ?r)" by (metis prod.collapse)
  have rm: "messages (snd ?r) = [(msg 2)\<lparr>remote_allowed := False\<rparr>]" by code_simp
  have rg: "map g_messages (gen_guilds (snd ?r)) = [ [(msg 2)\<lparr>remote_allowed := False, ref := 101\<rparr>] ]"
    by code_simp
  have c1: "copies_of (msg 1) (messages (fst ?s)) = 1" by code_simp
  have c2: "\<forall>g \<in> set (gen_guilds (fst ?s)). copies_of (msg 1) (g_messages g) = 1" by code_simp
  note T = template_messages_fan_out [where ev = plain_env and self = "fst ?s" and w = "snd ?s"]
  note Ta = T [where m = "msg 3", THEN conjunct1, rule_format, OF ha]
  from Ta have A1: "messages (fst (snd ?a)) = messages (fst ?s) @ [(msg 3)\<lparr>remote_allowed := False\<rparr>]"
    by blast
  from Ta gl have A2: "gen_guilds (fst (snd ?a)) ! 0 =
           (gen_guilds (fst ?s) ! 0)
             \<lparr>g_messages := g_messages (gen_guilds (fst ?s) ! 0) @
                 [(msg 3)\<lparr>remote_allowed := False, ref := next_ref (snd ?s) + 0\<rparr>]\<rparr>"
    by simp
  have A3: "g_messages (gen_guilds (fst (snd ?a)) ! 0) =
      g_messages (gen_guilds (fst ?s) ! 0) @ [(msg 3)\<lparr>remote_allowed := False, ref := next_ref (snd ?s) + 0\<rparr>]"
    unfolding A2 by simp
  from T [where m = "msg 1", THEN conjunct2, THEN conjunct1, THEN spec, THEN mp, OF hr] c1 c2
  have B: "copies_of (msg 1) (messages (snd ?r)) = 0 \<and>
         (\<forall>g1 \<in> set (gen_guilds (snd ?r)). copies_of (msg 1) (g_messages g1) = 0)"
    by blast
  show ?thesis
    unfolding case_prod_beta using m g n A1 A3 [unfolded g0 n] B fa fr rm rg
    by simp
qed

text \<open>
  The claim as stated fails: when \<open>m\<close> has been added twice, \<open>remove_message(m)\<close>
  completes and both the template list and the generated guild still hold a message
  equal to \<open>m\<close>.
\<close>

theorem remove_message_counterexample:
  "(case running ((plain_args ''shill'' None)\<lparr>a_messages := Some [msg 1]\<rparr>) of (self, w) \<Rightarrow>
      (case add_message plain_env self w (msg 1) of (r1, self1, w1) \<Rightarrow>
         (case remove_message self1 (msg 1) of (r2, self2) \<Rightarrow>
            r1 = None \<and> r2 = None \<and>
            map daf_id (messages self2) = [1] \<and>
            map (\<lambda>g. map daf_id (g_messages g)) (gen_guilds self2) = [ [1] ] \<and>
            copies_of (msg 1) (messages self2) = 1 \<and>
            map (\<lambda>g. copies_of (msg 1) (g_messages g)) (gen_guilds self2) = [1])))"
  by code_simp

end
